theory Spec2Isabelle
  imports Main "HOL-Library.AList"
begin

text \<open>
  A model of \<^verbatim>\<open>openstackkit/l3_evacuate.py\<close>: the target selectors (\<^verbatim>\<open>Picker\<close>,
  \<^verbatim>\<open>BalancePicker\<close>, \<^verbatim>\<open>CyclePicker\<close>), the host verifier of \<^verbatim>\<open>L3AgentEvacuator\<close> and
  the migration engine of \<^verbatim>\<open>SequenceEvacuator\<close>. A function keeps its Python name without
  the leading underscore; a method of a class that shares its name with another is
  prefixed with the class. Each function takes the state it reads and returns the state
  it leaves; a function that may raise returns a sum, with the exception on the left; a
  function that may loop forever returns an option. Logging is left out.
\<close>

section \<open>Data model\<close>

text \<open>
  The dictionaries returned by the control plane, reduced to the keys that
  \<^verbatim>\<open>l3_evacuate.py\<close> reads: an agent has \<^verbatim>\<open>id\<close>, \<^verbatim>\<open>host\<close>, \<^verbatim>\<open>alive\<close>,
  \<^verbatim>\<open>admin_state_up\<close> and \<^verbatim>\<open>configurations.routers\<close>; a router has \<^verbatim>\<open>id\<close> and
  \<^verbatim>\<open>routes\<close>; a port has \<^verbatim>\<open>id\<close> and \<^verbatim>\<open>device_owner\<close>.
\<close>

record agent =
  agent_id :: string
  agent_host :: string
  agent_alive :: bool
  agent_admin_state_up :: bool
  agent_routers :: int

record router =
  router_id :: string
  router_routes :: "string list"

record port =
  port_id :: string
  port_device_owner :: string

text \<open>
  The exceptions the code raises or lets through. \<^verbatim>\<open>except Exception\<close> catches
  every constructor; \<^verbatim>\<open>except NeutronClientException\<close> only the first.
\<close>

datatype exn =
    NeutronClientException
  | ValueError
  | StopIteration
  | KeyError
  | Exception string

text \<open>
  What the program does to its collaborators, in order: the commands handed to the
  remote runner and the two control-plane calls that change an assignment.
\<close>

datatype event =
    RunCmd string "string list"
  | RemoveRouter string string
  | AddRouter string string

text \<open>
  The collaborators: the remote executor (\<^verbatim>\<open>remote_exec\<close> returns
  \<^verbatim>\<open>(rc, stdout, stderr)\<close>; a host that cannot be contacted is reported as exit status 1
  with the reason as the error output) and the neutron client, whose calls yield the list
  that the program takes out of the response. Each call reads and may change an external
  world \<open>'w\<close>; a client call may raise. The flag of \<^verbatim>\<open>list_ports\<close> says whether the
  call carries the filter \<^verbatim>\<open>admin_state_up=True\<close>.
\<close>

record 'w env =
  remote_exec :: "string \<Rightarrow> string list \<Rightarrow> 'w \<Rightarrow> (int \<times> string \<times> string) \<times> 'w"
  list_agents :: "'w \<Rightarrow> (exn + agent list) \<times> 'w"
  list_routers_on_l3_agent :: "string \<Rightarrow> 'w \<Rightarrow> (exn + router list) \<times> 'w"
  list_l3_agent_hosting_routers :: "string \<Rightarrow> 'w \<Rightarrow> (exn + agent list) \<times> 'w"
  remove_router_from_l3_agent :: "string \<Rightarrow> string \<Rightarrow> 'w \<Rightarrow> (exn + unit) \<times> 'w"
  add_router_to_l3_agent :: "string \<Rightarrow> string \<Rightarrow> 'w \<Rightarrow> (exn + unit) \<times> 'w"
  list_ports :: "string \<Rightarrow> bool \<Rightarrow> 'w \<Rightarrow> (exn + port list) \<times> 'w"
  list_floatingips :: "string \<Rightarrow> 'w \<Rightarrow> (exn + string list) \<times> 'w"

record 'w state =
  world :: 'w
  trace :: "event list"

section \<open>Strings\<close>

text \<open>Python's \<^verbatim>\<open>sub in s\<close> on strings.\<close>

fun str_contains :: "string \<Rightarrow> string \<Rightarrow> bool" where
  "str_contains sub [] = (sub = [])"
| "str_contains sub (c # cs) =
     (take (length sub) (c # cs) = sub \<or> str_contains sub cs)"

text \<open>Python's \<^verbatim>\<open>s.split(sep)\<close> for a one-character separator.\<close>

fun split_on :: "char \<Rightarrow> string \<Rightarrow> string list" where
  "split_on sep [] = [[]]"
| "split_on sep (c # cs) =
     (if c = sep then [] # split_on sep cs
      else (case split_on sep cs of
              [] \<Rightarrow> [[c]]
            | w # ws \<Rightarrow> (c # w) # ws))"

definition newline :: char where
  "newline = CHR 0x0A"

section \<open>Remote runner\<close>

text \<open>\<^verbatim>\<open>RemoteRunner.run\<close>; the command it is given is added to the trace.\<close>

definition RemoteRunner_run ::
  "'w env \<Rightarrow> string \<Rightarrow> string list \<Rightarrow> 'w state \<Rightarrow> (bool \<times> string) \<times> 'w state" where
  "RemoteRunner_run env host cmd s =
     (case remote_exec env host cmd (world s) of
        ((rc, stdout, stderr), w') \<Rightarrow>
          (let s' = \<lparr>world = w', trace = trace s @ [RunCmd host cmd]\<rparr>
           in if rc \<noteq> 0 then ((False, stderr), s') else ((True, stdout), s')))"

section \<open>Host verifier: commands\<close>

definition cmd_list_nic_in_netns :: "string \<Rightarrow> string list" where
  "cmd_list_nic_in_netns netns =
     [''ip'', ''netns'', ''exec'', netns, ''ls'', ''-1'', ''/sys/class/net/'']"

text \<open>The \<^verbatim>\<open>timeout\<close> parameter is never passed: it is always its default, 10.\<close>

definition cmd_delete_ovs_port :: "string \<Rightarrow> string \<Rightarrow> string list" where
  "cmd_delete_ovs_port port_name br_name =
     [''ovs-vsctl'', ''--timeout=10'', ''--'', ''--if-exists'', ''del-port'',
      br_name, port_name]"

definition cmd_delete_netns :: "string \<Rightarrow> string list" where
  "cmd_delete_netns netns = [''ip'', ''netns'', ''delete'', netns]"

definition cmd_grep_snat_rule_in_netns :: "string \<Rightarrow> string \<Rightarrow> string list" where
  "cmd_grep_snat_rule_in_netns netns rule_name =
     [''ip'', ''netns'', ''exec'', netns, ''iptables'', ''-t'', ''nat'', ''-L'',
      ''|'', ''grep'', ''^'' @ rule_name]"

definition cmd_show_ipforward_in_netns :: "string \<Rightarrow> string list" where
  "cmd_show_ipforward_in_netns netns =
     [''ip'', ''netns'', ''exec'', netns, ''cat'', ''/proc/sys/net/ipv4/ip_forward'']"

definition namespace_of :: "router \<Rightarrow> string" where
  "namespace_of r = ''qrouter-'' @ router_id r"

section \<open>Host verifier: listing and cleanup\<close>

text \<open>
  \<^verbatim>\<open>_list_nics_in_netns_on_remote\<close>, \<^verbatim>\<open>_clean_nics_on_host\<close>, \<^verbatim>\<open>_clean_netns_on_host\<close>
  and \<^verbatim>\<open>_ensure_clean_router_on_host\<close>. The namespace of a router is
  \<^verbatim>\<open>"qrouter-%s" % router['id']\<close>.
\<close>

definition list_nics_in_netns_on_remote ::
  "'w env \<Rightarrow> string \<Rightarrow> string \<Rightarrow> 'w state \<Rightarrow> (exn + string list) \<times> 'w state" where
  "list_nics_in_netns_on_remote env host netns s =
     (case RemoteRunner_run env host (cmd_list_nic_in_netns netns) s of
        ((rc, output), s') \<Rightarrow>
          if rc then (Inr (filter (\<lambda>one_nic. one_nic \<noteq> ''lo'') (split_on newline output)), s')
          else if str_contains ''Cannot open network namespace'' output then (Inr [], s')
          else (Inl (Exception (''Failed list nics in namespace '' @ netns @ '' on host ['' @ host @ '']'')), s'))"

fun clean_nics_on_host :: "'w env \<Rightarrow> string \<Rightarrow> string list \<Rightarrow> 'w state \<Rightarrow> 'w state" where
  "clean_nics_on_host env host [] s = s"
| "clean_nics_on_host env host (one_nic # nics) s =
     (let (r, s') =
        (if str_contains ''qg-'' one_nic
         then RemoteRunner_run env host (cmd_delete_ovs_port one_nic ''br-router'') s
         else if str_contains ''qr-'' one_nic
         then RemoteRunner_run env host (cmd_delete_ovs_port one_nic ''br-int'') s
         else RemoteRunner_run env host (cmd_delete_ovs_port one_nic '''') s)
      in clean_nics_on_host env host nics s')"

definition clean_netns_on_host :: "'w env \<Rightarrow> string \<Rightarrow> string \<Rightarrow> 'w state \<Rightarrow> 'w state" where
  "clean_netns_on_host env host namespace s =
     snd (RemoteRunner_run env host (cmd_delete_netns namespace) s)"

definition ensure_clean_router_on_host ::
  "'w env \<Rightarrow> agent \<Rightarrow> router \<Rightarrow> 'w state \<Rightarrow> (exn + bool) \<times> 'w state" where
  "ensure_clean_router_on_host env ag r s =
     (let host = agent_host ag; namespace = namespace_of r in
      case list_nics_in_netns_on_remote env host namespace s of
        (Inl e, s1) \<Rightarrow> (Inl e, s1)
      | (Inr result, s1) \<Rightarrow>
          if length result = 0 then (Inr True, s1)
          else (let s2 = clean_nics_on_host env host result s1;
                    s3 = clean_netns_on_host env host namespace s2
                in (Inr True, s3)))"

section \<open>Target selectors\<close>

text \<open>
  A Python dictionary is an association list with distinct keys, in the order in which
  the dictionary iterates; \<^verbatim>\<open>d[k] = v\<close> replaces the value of a key that is
  present in place and adds a new key at the end (\<^const>\<open>AList.update\<close>).
  \<^verbatim>\<open>itertools.cycle(keys)\<close> is the list of keys it was built from and the number
  of \<^verbatim>\<open>next()\<close> calls made so far.
\<close>

record dest_entry =
  dest_agent :: agent
  dest_routers :: "router list"

record picker =
  src_agent :: agent
  dest :: "(string \<times> dest_entry) list"
  dest_cycle_items :: "string list"
  dest_cycle_pos :: nat
  src_router_count :: "nat option"

text \<open>The body of the loop over the listed agents in \<^verbatim>\<open>Picker.__init__\<close>.\<close>

definition Picker_add_dest ::
  "agent \<Rightarrow> agent \<Rightarrow> (string \<times> dest_entry) list \<Rightarrow> (string \<times> dest_entry) list" where
  "Picker_add_dest src a d =
     (if agent_alive a \<and> agent_admin_state_up a \<and> agent_id a \<noteq> agent_id src
      then AList.update (agent_id a) \<lparr>dest_agent = a, dest_routers = []\<rparr> d
      else d)"

text \<open>
  \<^verbatim>\<open>Picker.__init__\<close>: the dictionary of destinations, and the cycle over its keys at
  its start.
\<close>

definition Picker_init :: "'w env \<Rightarrow> agent \<Rightarrow> 'w \<Rightarrow> (exn + picker) \<times> 'w" where
  "Picker_init env src w =
     (case list_agents env w of
        (Inl e, w') \<Rightarrow> (Inl e, w')
      | (Inr agents, w') \<Rightarrow>
          (let d = fold (Picker_add_dest src) agents []
           in (Inr \<lparr>src_agent = src, dest = d, dest_cycle_items = map fst d,
                    dest_cycle_pos = 0, src_router_count = None\<rparr>, w')))"

text \<open>\<^verbatim>\<open>self._dest_cycle.next()\<close>: an empty cycle raises \<^verbatim>\<open>StopIteration\<close>.\<close>

definition dest_cycle_next :: "picker \<Rightarrow> (exn + string) \<times> picker" where
  "dest_cycle_next p =
     (if dest_cycle_items p = [] then (Inl StopIteration, p)
      else (Inr (dest_cycle_items p ! (dest_cycle_pos p mod length (dest_cycle_items p))),
            p\<lparr>dest_cycle_pos := dest_cycle_pos p + 1\<rparr>))"

text \<open>\<^verbatim>\<open>self.dest[agent_id]['routers'].append(router)\<close>.\<close>

definition dest_append ::
  "string \<Rightarrow> router \<Rightarrow> (string \<times> dest_entry) list \<Rightarrow> exn + (string \<times> dest_entry) list" where
  "dest_append k r d =
     (case map_of d k of
        None \<Rightarrow> Inl KeyError
      | Some e \<Rightarrow> Inr (AList.map_entry k (\<lambda>e. e\<lparr>dest_routers := dest_routers e @ [r]\<rparr>) d))"

text \<open>
  \<^verbatim>\<open>min(totals.keys(), key=lambda agent_id: totals[agent_id])\<close>: the first key, in
  iteration order, whose total is least; \<^verbatim>\<open>ValueError\<close> on an empty dictionary.
\<close>

fun min_first :: "string \<times> int \<Rightarrow> (string \<times> int) list \<Rightarrow> string" where
  "min_first (k, v) [] = k"
| "min_first (k, v) ((k', v') # rest) =
     (if v' < v then min_first (k', v') rest else min_first (k, v) rest)"

definition min_key :: "(string \<times> int) list \<Rightarrow> exn + string" where
  "min_key totals = (case totals of [] \<Rightarrow> Inl ValueError | kv # rest \<Rightarrow> Inr (min_first kv rest))"

text \<open>
  \<^verbatim>\<open>BalancePicker.init\<close>. The dictionary \<^verbatim>\<open>totals\<close> gets the keys of \<^verbatim>\<open>self.dest\<close>
  in their order, each with the load its agent reported; \<open>balance_assign\<close> is the loop
  over the routers. An exception leaves the loop with the selector as it is then.
\<close>

fun balance_assign ::
  "router list \<Rightarrow> (string \<times> int) list \<Rightarrow> picker \<Rightarrow> (exn + unit) \<times> picker" where
  "balance_assign [] totals p = (Inr (), p)"
| "balance_assign (r # routers) totals p =
     (case min_key totals of
        Inl e \<Rightarrow> (Inl e, p)
      | Inr aid \<Rightarrow>
          (case dest_append aid r (dest p) of
             Inl e \<Rightarrow> (Inl e, p)
           | Inr d \<Rightarrow>
               balance_assign routers
                 (AList.map_entry aid (\<lambda>n. n + 1) totals) (p\<lparr>dest := d\<rparr>)))"

definition BalancePicker_init ::
  "'w env \<Rightarrow> picker \<Rightarrow> 'w \<Rightarrow> ((exn + nat) \<times> picker) \<times> 'w" where
  "BalancePicker_init env p w =
     (case list_routers_on_l3_agent env (agent_id (src_agent p)) w of
        (Inl e, w') \<Rightarrow> ((Inl e, p), w')
      | (Inr routers, w') \<Rightarrow>
          (let p1 = p\<lparr>src_router_count := Some (length routers)\<rparr>;
               totals = map (\<lambda>(k, e). (k, agent_routers (dest_agent e))) (dest p1)
           in case balance_assign routers totals p1 of
                (Inl e, p2) \<Rightarrow> ((Inl e, p2), w')
              | (Inr u, p2) \<Rightarrow> ((Inr (length routers), p2), w')))"

text \<open>\<^verbatim>\<open>CyclePicker.init\<close>; \<open>cycle_assign\<close> is the loop over the routers.\<close>

fun cycle_assign :: "router list \<Rightarrow> picker \<Rightarrow> (exn + unit) \<times> picker" where
  "cycle_assign [] p = (Inr (), p)"
| "cycle_assign (r # routers) p =
     (case dest_cycle_next p of
        (Inl e, p1) \<Rightarrow> (Inl e, p1)
      | (Inr aid, p1) \<Rightarrow>
          (case dest_append aid r (dest p1) of
             Inl e \<Rightarrow> (Inl e, p1)
           | Inr d \<Rightarrow> cycle_assign routers (p1\<lparr>dest := d\<rparr>)))"

definition CyclePicker_init ::
  "'w env \<Rightarrow> picker \<Rightarrow> 'w \<Rightarrow> ((exn + nat) \<times> picker) \<times> 'w" where
  "CyclePicker_init env p w =
     (case list_routers_on_l3_agent env (agent_id (src_agent p)) w of
        (Inl e, w') \<Rightarrow> ((Inl e, p), w')
      | (Inr routers, w') \<Rightarrow>
          (let p1 = p\<lparr>src_router_count := Some (length routers)\<rparr>
           in case cycle_assign routers p1 of
                (Inl e, p2) \<Rightarrow> ((Inl e, p2), w')
              | (Inr u, p2) \<Rightarrow> ((Inr (length routers), p2), w')))"

section \<open>Migration engine\<close>

text \<open>
  The attributes of the evacuator that the engine reads: \<^verbatim>\<open>self._src_agent\<close>,
  \<^verbatim>\<open>self._wait_interval\<close>, \<^verbatim>\<open>self._wait_timeout\<close>, \<^verbatim>\<open>self._least_wait_time\<close> and
  \<^verbatim>\<open>self._retry\<close>.
\<close>

record evacuator =
  self_src_agent :: agent
  wait_interval :: int
  wait_timeout :: int
  least_wait_time :: int
  retry :: int

text \<open>
  The loop of \<^verbatim>\<open>_wait_until\<close>. The clock is the variable \<^verbatim>\<open>wait_time\<close>, which the
  loop advances by \<^verbatim>\<open>wait_interval\<close> after each failed poll (\<^verbatim>\<open>time.sleep\<close> has no
  other effect on the program). The loop need not end, so the result is an option:
  \<open>None\<close> is a loop that runs forever. It yields the final \<^verbatim>\<open>wait_time\<close>, or the
  exception that the polled function raised. Times are integers, as are all the values
  the program passes. \<^verbatim>\<open>_wait_until\<close> starts the clock at 0 and returns false when the
  clock has passed the timeout.
\<close>

partial_function (option) wait_loop ::
  "('w state \<Rightarrow> (exn + bool) \<times> 'w state) \<Rightarrow> int \<Rightarrow> int \<Rightarrow> int \<Rightarrow> int \<Rightarrow> 'w state
     \<Rightarrow> ((exn + int) \<times> 'w state) option" where
  "wait_loop func timeout interval least wait_time s =
     (if wait_time < least \<or> wait_time \<le> timeout then
        (case func s of
           (Inl e, s') \<Rightarrow> Some (Inl e, s')
         | (Inr ok, s') \<Rightarrow>
             if \<not> ok then wait_loop func timeout interval least (wait_time + interval) s'
             else Some (Inr wait_time, s'))
      else Some (Inr wait_time, s))"

definition wait_until ::
  "('w state \<Rightarrow> (exn + bool) \<times> 'w state) \<Rightarrow> int \<Rightarrow> int \<Rightarrow> int \<Rightarrow> 'w state
     \<Rightarrow> ((exn + bool) \<times> 'w state) option" where
  "wait_until func timeout interval least s =
     (case wait_loop func timeout interval least 0 s of
        None \<Rightarrow> None
      | Some (Inl e, s') \<Rightarrow> Some (Inl e, s')
      | Some (Inr wait_time, s') \<Rightarrow>
          if wait_time > timeout then Some (Inr False, s') else Some (Inr True, s'))"

subsection \<open>Checks against the control plane and the host\<close>

definition check_api_removed ::
  "'w env \<Rightarrow> agent \<Rightarrow> router \<Rightarrow> 'w state \<Rightarrow> (exn + bool) \<times> 'w state" where
  "check_api_removed env ag r s =
     (case list_l3_agent_hosting_routers env (router_id r) (world s) of
        (Inl e, w') \<Rightarrow> (Inl e, s\<lparr>world := w'\<rparr>)
      | (Inr agents, w') \<Rightarrow> (Inr (length agents = 0), s\<lparr>world := w'\<rparr>))"

definition check_api_added ::
  "'w env \<Rightarrow> agent \<Rightarrow> router \<Rightarrow> 'w state \<Rightarrow> (exn + bool) \<times> 'w state" where
  "check_api_added env ag r s =
     (case list_l3_agent_hosting_routers env (router_id r) (world s) of
        (Inl e, w') \<Rightarrow> (Inl e, s\<lparr>world := w'\<rparr>)
      | (Inr agents, w') \<Rightarrow> (Inr (agent_id ag \<in> set (map agent_id agents)), s\<lparr>world := w'\<rparr>))"

definition verify_router_snat_rule ::
  "'w env \<Rightarrow> agent \<Rightarrow> router \<Rightarrow> 'w state \<Rightarrow> (exn + bool) \<times> 'w state" where
  "verify_router_snat_rule env ag r s =
     (case RemoteRunner_run env (agent_host ag)
             (cmd_grep_snat_rule_in_netns (namespace_of r) ''neutron-l3-agent-snat'') s of
        ((rc, output), s') \<Rightarrow> (Inr rc, s'))"

definition verify_ipforward_on_host ::
  "'w env \<Rightarrow> agent \<Rightarrow> router \<Rightarrow> 'w state \<Rightarrow> bool \<times> 'w state" where
  "verify_ipforward_on_host env ag r s =
     (case RemoteRunner_run env (agent_host ag) (cmd_show_ipforward_in_netns (namespace_of r)) s of
        ((rc, output), s') \<Rightarrow> if rc then (output = ''1'', s') else (False, s'))"

text \<open>The loop over the ports in \<^verbatim>\<open>_verify_ports_on_host\<close>, from the current \<^verbatim>\<open>state\<close>.\<close>

fun ports_state :: "port list \<Rightarrow> string list \<Rightarrow> bool \<Rightarrow> bool" where
  "ports_state [] result state = state"
| "ports_state (one_port # ports) result state =
     (if port_device_owner one_port = ''network:router_interface''
      then ports_state ports result (state \<and> (''qr-'' @ take 11 (port_id one_port)) \<in> set result)
      else if port_device_owner one_port = ''network:router_gateway''
      then ports_state ports result (state \<and> (''qg-'' @ take 11 (port_id one_port)) \<in> set result)
      else ports_state ports result state)"

definition verify_ports_on_host ::
  "'w env \<Rightarrow> agent \<Rightarrow> router \<Rightarrow> 'w state \<Rightarrow> (exn + bool) \<times> 'w state" where
  "verify_ports_on_host env ag r s =
     (case list_ports env (router_id r) True (world s) of
        (Inl e, w') \<Rightarrow> (Inl e, s\<lparr>world := w'\<rparr>)
      | (Inr ports, w') \<Rightarrow>
          if length ports = 0 then (Inr True, s\<lparr>world := w'\<rparr>)
          else (case list_nics_in_netns_on_remote env (agent_host ag) (namespace_of r)
                       (s\<lparr>world := w'\<rparr>) of
                  (Inl e, s') \<Rightarrow> (Inl e, s')
                | (Inr result, s') \<Rightarrow> (Inr (ports_state ports result True), s')))"

definition verify_router_on_host ::
  "'w env \<Rightarrow> agent \<Rightarrow> router \<Rightarrow> 'w state \<Rightarrow> (exn + bool) \<times> 'w state" where
  "verify_router_on_host env ag r s =
     (case verify_ports_on_host env ag r s of
        (Inl e, s') \<Rightarrow> (Inl e, s')
      | (Inr verify_ports, s') \<Rightarrow>
          if \<not> verify_ports then (Inr False, s')
          else (case verify_ipforward_on_host env ag r s' of
                  (verify_ip_forward, s'') \<Rightarrow> (Inr verify_ip_forward, s'')))"

definition extra_timeout_for_router ::
  "'w env \<Rightarrow> router \<Rightarrow> 'w state \<Rightarrow> (exn + int) \<times> 'w state" where
  "extra_timeout_for_router env r s =
     (case list_ports env (router_id r) False (world s) of
        (Inl e, w') \<Rightarrow> (Inl e, s\<lparr>world := w'\<rparr>)
      | (Inr ports, w') \<Rightarrow>
          (case list_floatingips env (router_id r) w' of
             (Inl e, w'') \<Rightarrow> (Inl e, s\<lparr>world := w''\<rparr>)
           | (Inr floating_ips, w'') \<Rightarrow>
               (Inr (int (length ports) + int (length floating_ips) + int (length (router_routes r))),
                s\<lparr>world := w''\<rparr>)))"

subsection \<open>Detach and attach with retries\<close>

text \<open>
  How the \<^verbatim>\<open>try\<close> block of \<^verbatim>\<open>_remove_router\<close> or \<^verbatim>\<open>_add_router\<close> ends, and the value
  \<^verbatim>\<open>need_retry\<close> then has: the call returned and the poll confirmed it (false); the
  call returned and the poll timed out (true); a \<^verbatim>\<open>NeutronClientException\<close> was caught
  (true); another exception left the block (still false; the \<^verbatim>\<open>return\<close> in the
  \<^verbatim>\<open>finally\<close> block then discards the exception).
\<close>

datatype try_outcome = Confirmed | PollTimeout | ApiException | OtherException exn

fun need_retry :: "try_outcome \<Rightarrow> bool" where
  "need_retry Confirmed = False"
| "need_retry PollTimeout = True"
| "need_retry ApiException = True"
| "need_retry (OtherException e) = False"

definition raised :: "exn \<Rightarrow> try_outcome" where
  "raised e = (if e = NeutronClientException then ApiException else OtherException e)"

definition remove_try ::
  "'w env \<Rightarrow> evacuator \<Rightarrow> agent \<Rightarrow> router \<Rightarrow> 'w state \<Rightarrow> (try_outcome \<times> 'w state) option" where
  "remove_try env self ag r s =
     (let s1 = s\<lparr>trace := trace s @ [RemoveRouter (agent_id ag) (router_id r)]\<rparr> in
      case remove_router_from_l3_agent env (agent_id ag) (router_id r) (world s1) of
        (Inl e, w') \<Rightarrow> Some (raised e, s1\<lparr>world := w'\<rparr>)
      | (Inr u, w') \<Rightarrow>
          (case wait_until (check_api_removed env ag r) (wait_timeout self) (wait_interval self)
                  (least_wait_time self) (s1\<lparr>world := w'\<rparr>) of
             None \<Rightarrow> None
           | Some (Inl e, s2) \<Rightarrow> Some (raised e, s2)
           | Some (Inr ok, s2) \<Rightarrow> Some (if \<not> ok then PollTimeout else Confirmed, s2)))"

function remove_router ::
  "'w env \<Rightarrow> evacuator \<Rightarrow> agent \<Rightarrow> router \<Rightarrow> int \<Rightarrow> 'w state \<Rightarrow> (bool \<times> 'w state) option" where
  "remove_router env self ag r retry_left s =
     (case remove_try env self ag r s of
        None \<Rightarrow> None
      | Some (out, s') \<Rightarrow>
          if \<not> need_retry out then Some (True, s')
          else if retry_left > 0 then remove_router env self ag r (retry_left - 1) s'
          else Some (False, s'))"
  by pat_completeness auto
termination
  by (relation "measure (\<lambda>(env, self, ag, r, retry_left, s). nat retry_left)") auto

definition ensure_router_cleaned ::
  "'w env \<Rightarrow> agent \<Rightarrow> router \<Rightarrow> 'w state \<Rightarrow> bool \<times> 'w state" where
  "ensure_router_cleaned env ag r s =
     (case ensure_clean_router_on_host env ag r s of
        (Inl e, s') \<Rightarrow> (False, s')
      | (Inr b, s') \<Rightarrow> (True, s'))"

definition add_try ::
  "'w env \<Rightarrow> evacuator \<Rightarrow> agent \<Rightarrow> router \<Rightarrow> 'w state \<Rightarrow> (try_outcome \<times> 'w state) option" where
  "add_try env self ag r s =
     (let s1 = s\<lparr>trace := trace s @ [AddRouter (agent_id ag) (router_id r)]\<rparr> in
      case add_router_to_l3_agent env (agent_id ag) (router_id r) (world s1) of
        (Inl e, w') \<Rightarrow> Some (raised e, s1\<lparr>world := w'\<rparr>)
      | (Inr u, w') \<Rightarrow>
          (case wait_until (check_api_added env ag r) (wait_timeout self) (wait_interval self)
                  (least_wait_time self) (s1\<lparr>world := w'\<rparr>) of
             None \<Rightarrow> None
           | Some (Inl e, s2) \<Rightarrow> Some (raised e, s2)
           | Some (Inr ok, s2) \<Rightarrow> Some (if \<not> ok then PollTimeout else Confirmed, s2)))"

function add_router ::
  "'w env \<Rightarrow> evacuator \<Rightarrow> agent \<Rightarrow> router \<Rightarrow> int \<Rightarrow> 'w state \<Rightarrow> (bool \<times> 'w state) option" where
  "add_router env self ag r retry_left s =
     (case add_try env self ag r s of
        None \<Rightarrow> None
      | Some (out, s') \<Rightarrow>
          if \<not> need_retry out then Some (True, s')
          else if retry_left > 0 then add_router env self ag r (retry_left - 1) s'
          else Some (False, s'))"
  by pat_completeness auto
termination
  by (relation "measure (\<lambda>(env, self, ag, r, retry_left, s). nat retry_left)") auto

subsection \<open>Verification of the destination, reconciliation, migration\<close>

text \<open>
  \<^verbatim>\<open>_ensure_router_added\<close>: every exception raised in the \<^verbatim>\<open>try\<close> block is caught by
  \<^verbatim>\<open>except Exception\<close>, whose handler returns \<^verbatim>\<open>True\<close>.
\<close>

definition ensure_router_added ::
  "'w env \<Rightarrow> evacuator \<Rightarrow> agent \<Rightarrow> router \<Rightarrow> 'w state \<Rightarrow> (bool \<times> 'w state) option" where
  "ensure_router_added env self ag r s =
     (case wait_until (verify_router_snat_rule env ag r) 15 1 1 s of
        None \<Rightarrow> None
      | Some (Inl e, s1) \<Rightarrow> Some (True, s1)
      | Some (Inr found, s1) \<Rightarrow>
          (case verify_router_on_host env ag r s1 of
             (Inl e, s2) \<Rightarrow> Some (True, s2)
           | (Inr verified, s2) \<Rightarrow>
               if \<not> verified then
                 (case extra_timeout_for_router env r s2 of
                    (Inl e, s3) \<Rightarrow> Some (True, s3)
                  | (Inr extra_timeout, s3) \<Rightarrow>
                      (case wait_until (verify_router_on_host env ag r) extra_timeout 1 1 s3 of
                         None \<Rightarrow> None
                       | Some (Inl e, s4) \<Rightarrow> Some (True, s4)
                       | Some (Inr added, s4) \<Rightarrow>
                           if \<not> added then Some (False, s4) else Some (True, s4)))
               else Some (True, s2)))"

text \<open>What \<^verbatim>\<open>_retry_failed_router\<close> returns: \<^verbatim>\<open>None\<close> or \<^verbatim>\<open>True\<close>.\<close>

datatype retval = RetNone | RetTrue

function retry_failed_router ::
  "'w env \<Rightarrow> evacuator \<Rightarrow> router \<Rightarrow> agent \<Rightarrow> int \<Rightarrow> 'w state
     \<Rightarrow> ((exn + retval) \<times> 'w state) option" where
  "retry_failed_router env self r src retry_left s =
     (if retry_left < 0 then Some (Inr RetNone, s)
      else
        (case list_l3_agent_hosting_routers env (router_id r) (world s) of
           (Inl e, w') \<Rightarrow> Some (Inl e, s\<lparr>world := w'\<rparr>)
         | (Inr agents, w') \<Rightarrow>
             (case agents of
                ag # rest \<Rightarrow>
                  (case ensure_router_added env self ag r (s\<lparr>world := w'\<rparr>) of
                     None \<Rightarrow> None
                   | Some (ensured, s2) \<Rightarrow>
                       if ensured then
                         (if agent_id ag \<noteq> agent_id src
                          then Some (Inr RetTrue, snd (ensure_router_cleaned env src r s2))
                          else Some (Inr RetTrue, s2))
                       else Some (Inr RetNone, s2))
              | [] \<Rightarrow>
                  (case add_router env self src r (retry self) (s\<lparr>world := w'\<rparr>) of
                     None \<Rightarrow> None
                   | Some (added, s2) \<Rightarrow>
                       (case retry_failed_router env self r src (retry_left - 1) s2 of
                          None \<Rightarrow> None
                        | Some (Inl e, s3) \<Rightarrow> Some (Inl e, s3)
                        | Some (Inr v, s3) \<Rightarrow> Some (Inr RetNone, s3))))))"
  by pat_completeness auto
termination
  by (relation "measure (\<lambda>(env, self, r, src, retry_left, s). nat (retry_left + 1))") auto

definition migrate_router ::
  "'w env \<Rightarrow> evacuator \<Rightarrow> agent \<Rightarrow> router \<Rightarrow> agent option \<Rightarrow> 'w state
     \<Rightarrow> ((exn + unit) \<times> 'w state) option" where
  "migrate_router env self target_agent r src_agent_arg s =
     (let src = (case src_agent_arg of None \<Rightarrow> self_src_agent self | Some a \<Rightarrow> a) in
      case remove_router env self src r (retry self) s of
        None \<Rightarrow> None
      | Some (removed, s1) \<Rightarrow>
          if removed then
            (case add_router env self target_agent r (retry self) s1 of
               None \<Rightarrow> None
             | Some (added, s2) \<Rightarrow>
                 (case list_ports env (router_id r) True (world s2) of
                    (Inl e, w') \<Rightarrow> Some (Inl e, s2\<lparr>world := w'\<rparr>)
                  | (Inr ports, w') \<Rightarrow>
                      if added \<and> length ports > 0 then
                        (case ensure_router_added env self target_agent r (s2\<lparr>world := w'\<rparr>) of
                           None \<Rightarrow> None
                         | Some (ensure_added, s4) \<Rightarrow>
                             if ensure_added
                             then Some (Inr (), snd (ensure_router_cleaned env src r s4))
                             else (case retry_failed_router env self r src (retry self) s4 of
                                     None \<Rightarrow> None
                                   | Some (Inl e, s5) \<Rightarrow> Some (Inl e, s5)
                                   | Some (Inr v, s5) \<Rightarrow> Some (Inr (), s5)))
                      else if length ports = 0 then Some (Inr (), s2\<lparr>world := w'\<rparr>)
                      else (case retry_failed_router env self r src (retry self)
                                   (s2\<lparr>world := w'\<rparr>) of
                              None \<Rightarrow> None
                            | Some (Inl e, s5) \<Rightarrow> Some (Inl e, s5)
                            | Some (Inr v, s5) \<Rightarrow> Some (Inr (), s5))))
          else Some (Inr (), s1))"

section \<open>Notions used in the statements\<close>

subsection \<open>Loads of the destinations\<close>

text \<open>
  The load of a destination once the workloads queued for it have moved there: the
  load the agent reported plus the length of its queue.
\<close>

definition cur_loads :: "(string \<times> dest_entry) list \<Rightarrow> (string \<times> int) list" where
  "cur_loads d = map (\<lambda>(k, e). (k, agent_routers (dest_agent e) + int (length (dest_routers e)))) d"

definition post_loads :: "picker \<Rightarrow> int list" where
  "post_loads p = map snd (cur_loads (dest p))"

definition initial_loads :: "picker \<Rightarrow> int list" where
  "initial_loads p = map (\<lambda>(k, e). agent_routers (dest_agent e)) (dest p)"

text \<open>The values of a table of loads lie within \<open>c\<close> of each other.\<close>

definition spread_le :: "int \<Rightarrow> (string \<times> int) list \<Rightarrow> bool" where
  "spread_le c totals = (\<forall>x\<in>snd ` set totals. \<forall>y\<in>snd ` set totals. x - y \<le> c)"

text \<open>No destination has a workload queued: the state of a selector before \<^verbatim>\<open>init()\<close>.\<close>

definition fresh_queues :: "(string \<times> dest_entry) list \<Rightarrow> bool" where
  "fresh_queues d = list_all (\<lambda>kv. dest_routers (snd kv) = []) d"

subsection \<open>The trace\<close>

text \<open>
  The bridge through which \<^verbatim>\<open>_clean_nics_on_host\<close> deletes an interface, and the events
  the program has added to the trace between two states.
\<close>

definition bridge_of :: "string \<Rightarrow> string" where
  "bridge_of one_nic =
     (if str_contains ''qg-'' one_nic then ''br-router''
      else if str_contains ''qr-'' one_nic then ''br-int'' else [])"

definition new_events :: "'w state \<Rightarrow> 'w state \<Rightarrow> event list" where
  "new_events s s' = drop (length (trace s)) (trace s')"

text \<open>
  Between the states \<open>s\<close> and \<open>s'\<close> the program has only added events to the trace,
  and each added event satisfies \<open>Q\<close>.
\<close>

definition extends :: "(event \<Rightarrow> bool) \<Rightarrow> 'w state \<Rightarrow> 'w state \<Rightarrow> bool" where
  "extends Q s s' = (\<exists>evs. trace s' = trace s @ evs \<and> list_all Q evs)"

fun is_RunCmd :: "event \<Rightarrow> bool" where
  "is_RunCmd (RunCmd host cmd) = True"
| "is_RunCmd e = False"

fun is_AddRouter :: "event \<Rightarrow> bool" where
  "is_AddRouter (AddRouter a r) = True"
| "is_AddRouter e = False"

subsection \<open>Successive attempts\<close>

text \<open>
  The outcomes of \<open>n\<close> attempts made one after the other, each from the state the one before
  left: what the collaborators would answer to that many attempts.
\<close>

fun try_outcomes ::
  "('w state \<Rightarrow> (try_outcome \<times> 'w state) option) \<Rightarrow> nat \<Rightarrow> 'w state \<Rightarrow> try_outcome list option" where
  "try_outcomes attempt 0 s = Some []"
| "try_outcomes attempt (Suc n) s =
     (case attempt s of
        None \<Rightarrow> None
      | Some (out, s') \<Rightarrow>
          (case try_outcomes attempt n s' of
             None \<Rightarrow> None
           | Some outs \<Rightarrow> Some (out # outs)))"

section \<open>Concrete collaborators for the examples\<close>

definition ex_agent :: "string \<Rightarrow> int \<Rightarrow> agent" where
  "ex_agent i n = \<lparr>agent_id = i, agent_host = ''host-'' @ i, agent_alive = True,
                   agent_admin_state_up = True, agent_routers = n\<rparr>"

definition ex_router :: "string \<Rightarrow> router" where
  "ex_router i = \<lparr>router_id = i, router_routes = []\<rparr>"

definition quiet_env :: "agent list \<Rightarrow> router list \<Rightarrow> unit env" where
  "quiet_env agents routers =
     \<lparr>remote_exec = (\<lambda>host cmd w. ((0, [], []), w)),
      list_agents = (\<lambda>w. (Inr agents, w)),
      list_routers_on_l3_agent = (\<lambda>a w. (Inr routers, w)),
      list_l3_agent_hosting_routers = (\<lambda>r w. (Inr [], w)),
      remove_router_from_l3_agent = (\<lambda>a r w. (Inr (), w)),
      add_router_to_l3_agent = (\<lambda>a r w. (Inr (), w)),
      list_ports = (\<lambda>r up w. (Inr [], w)),
      list_floatingips = (\<lambda>r w. (Inr [], w))\<rparr>"

definition ex_picker :: "agent \<Rightarrow> agent list \<Rightarrow> picker" where
  "ex_picker src agents =
     \<lparr>src_agent = src,
      dest = map (\<lambda>a. (agent_id a, \<lparr>dest_agent = a, dest_routers = []\<rparr>)) agents,
      dest_cycle_items = map agent_id agents,
      dest_cycle_pos = 0, src_router_count = None\<rparr>"

text \<open>A remote executor that answers every command with the same exit status and output.\<close>

definition const_runner :: "int \<Rightarrow> string \<Rightarrow> string \<Rightarrow> unit env" where
  "const_runner rc out err = (quiet_env [] [])\<lparr>remote_exec := (\<lambda>host cmd w. ((rc, out, err), w))\<rparr>"

definition s0 :: "unit state" where
  "s0 = \<lparr>world = (), trace = []\<rparr>"

text \<open>
  An evacuator that polls once a second and gives up at once (timeout 0, no minimum
  wait), with the given retry budget.
\<close>

definition ex_self :: "int \<Rightarrow> evacuator" where
  "ex_self n = \<lparr>self_src_agent = ex_agent ''src'' 1, wait_interval = 1, wait_timeout = 0,
                least_wait_time = 0, retry = n\<rparr>"

definition ex_port :: "string \<Rightarrow> string \<Rightarrow> port" where
  "ex_port i owner = \<lparr>port_id = i, port_device_owner = owner\<rparr>"

text \<open>
  A host that cannot be reached (every command fails with an ssh error), for a router
  with one enabled interface port.
\<close>

definition unreachable_env :: "unit env" where
  "unreachable_env =
     (const_runner 255 [] ''ssh: connect to host host-a1 port 22: Connection timed out'')
       \<lparr>list_ports := (\<lambda>r up w. (Inr [ex_port ''0123456789abcdef'' ''network:router_interface''], w))\<rparr>"

text \<open>
  A control plane whose detach call raises \<^verbatim>\<open>NeutronClientException\<close> the first time
  and returns from the second time on, and which lists the source agent as the host of the
  router until the third detach call has been made; the world counts the detach calls. So
  the first attempt fails by an API exception, the second by a poll timeout, and the third
  is confirmed.
\<close>

definition flaky_env :: "nat env" where
  "flaky_env =
     \<lparr>remote_exec = (\<lambda>host cmd w. ((0, [], []), w)),
      list_agents = (\<lambda>w. (Inr [], w)),
      list_routers_on_l3_agent = (\<lambda>a w. (Inr [], w)),
      list_l3_agent_hosting_routers =
        (\<lambda>r w. (Inr (if w < 3 then [ex_agent ''src'' 1] else []), w)),
      remove_router_from_l3_agent =
        (\<lambda>a r w. (if w < 1 then Inl NeutronClientException else Inr (), Suc w)),
      add_router_to_l3_agent = (\<lambda>a r w. (Inr (), w)),
      list_ports = (\<lambda>r up w. (Inr [], w)),
      list_floatingips = (\<lambda>r w. (Inr [], w))\<rparr>"

definition n0 :: "nat state" where
  "n0 = \<lparr>world = 0, trace = []\<rparr>"

text \<open>
  A control plane whose detach call fails with an exception that is not a
  \<^verbatim>\<open>NeutronClientException\<close> (the connection breaks), and which lists the source agent as
  the host of the router throughout.
\<close>

definition aborting_env :: "unit env" where
  "aborting_env =
     (quiet_env [] [])
       \<lparr>list_l3_agent_hosting_routers := (\<lambda>r w. (Inr [ex_agent ''src'' 1], w)),
        remove_router_from_l3_agent := (\<lambda>a r w. (Inl (Exception ''Connection aborted''), w))\<rparr>"

section \<open>Properties of the target selectors\<close>

lemma min_first_least:
  "\<exists>m. (min_first kv rest, m) \<in> set (kv # rest) \<and> m \<le> snd kv \<and> (\<forall>x\<in>snd ` set rest. m \<le> x)"
proof (induction kv rest rule: min_first.induct)
  case (1 k v) then show ?case by simp
next
  case (2 k v k' v' rest)
  show ?case
  proof (cases "v' < v")
    case True
    with 2 obtain m where "(min_first (k', v') rest, m) \<in> set ((k', v') # rest)"
      "m \<le> v'" "\<forall>x\<in>snd ` set rest. m \<le> x" by auto
    with True show ?thesis by (intro exI[of _ m]) auto
  next
    case False
    with 2 obtain m where "(min_first (k, v) rest, m) \<in> set ((k, v) # rest)"
      "m \<le> v" "\<forall>x\<in>snd ` set rest. m \<le> x" by auto
    with False show ?thesis by (intro exI[of _ m]) auto
  qed
qed

lemma min_key_least:
  assumes "totals \<noteq> []" "distinct (map fst totals)"
  shows "\<exists>k m. min_key totals = Inr k \<and> map_of totals k = Some m \<and> (\<forall>x\<in>snd ` set totals. m \<le> x)"
proof -
  from assms obtain kv rest where t: "totals = kv # rest" by (cases totals) auto
  from min_first_least[of kv rest] obtain m where
    m: "(min_first kv rest, m) \<in> set (kv # rest)" "m \<le> snd kv" "\<forall>x\<in>snd ` set rest. m \<le> x"
    by blast
  have "map_of totals (min_first kv rest) = Some m"
    using m(1) assms(2) t by (simp only: map_of_eq_Some_iff)
  moreover have "\<forall>x\<in>snd ` set totals. m \<le> x" using m t by auto
  ultimately show ?thesis by (simp add: min_key_def t)
qed

lemma map_entry_set:
  "distinct (map fst al) \<Longrightarrow> map_of al k = Some v \<Longrightarrow>
   snd ` set (AList.map_entry k f al) \<subseteq> insert (f v) (snd ` set al)"
  by (induction al) (auto split: if_splits)

lemma spread_le_step:
  assumes "distinct (map fst totals)" "map_of totals k = Some m"
    "\<forall>x\<in>snd ` set totals. m \<le> x" "spread_le c totals" "1 \<le> c"
  shows "spread_le c (AList.map_entry k (\<lambda>n. n + 1) totals)"
proof -
  have sub: "snd ` set (AList.map_entry k (\<lambda>n. n + 1) totals) \<subseteq> insert (m + 1) (snd ` set totals)"
    using map_entry_set[OF assms(1,2)] by simp
  have mem: "m \<in> snd ` set totals" using assms(2) by (metis map_of_SomeD image_eqI snd_conv)
  show ?thesis
    unfolding spread_le_def
  proof (intro ballI)
    fix x y
    assume "x \<in> snd ` set (AList.map_entry k (\<lambda>n. n + 1) totals)"
       and "y \<in> snd ` set (AList.map_entry k (\<lambda>n. n + 1) totals)"
    with sub have x: "x = m + 1 \<or> x \<in> snd ` set totals" and y: "y = m + 1 \<or> y \<in> snd ` set totals"
      by auto
    have "m \<le> y \<or> y = m + 1" using y assms(3) by auto
    moreover have "x = m + 1 \<or> x - m \<le> c" using x mem assms(4) by (auto simp: spread_le_def)
    moreover have "x = m + 1 \<or> (y \<in> snd ` set totals \<longrightarrow> x - y \<le> c)"
      using x assms(4) by (auto simp: spread_le_def)
    ultimately show "x - y \<le> c" using assms(5) y by auto
  qed
qed

lemma cur_loads_append:
  "cur_loads (AList.map_entry k (\<lambda>e. e\<lparr>dest_routers := dest_routers e @ [r]\<rparr>) d)
   = AList.map_entry k (\<lambda>n. n + 1) (cur_loads d)"
  by (induction d) (simp_all add: cur_loads_def split: prod.splits)

lemma cur_loads_keys: "map fst (cur_loads d) = map fst d"
  by (induction d) (simp_all add: cur_loads_def split: prod.splits)

lemma map_of_cur_loads_None: "map_of d k = None \<Longrightarrow> map_of (cur_loads d) k = None"
  by (induction d) (auto simp: cur_loads_def)

lemma map_entry_keys: "map fst (AList.map_entry k f al) = map fst al"
  by (induction al) simp_all

lemma map_entry_agents:
  "map (\<lambda>x. dest_agent (snd x)) (AList.map_entry k (\<lambda>e. e\<lparr>dest_routers := dest_routers e @ [r]\<rparr>) d)
   = map (\<lambda>x. dest_agent (snd x)) d"
  by (induction d) simp_all

lemma balance_assign_spread:
  assumes "dest p \<noteq> []" "distinct (map fst (dest p))" "totals = cur_loads (dest p)"
    "spread_le c totals" "1 \<le> c"
  shows "\<exists>p'. balance_assign routers totals p = (Inr (), p') \<and> spread_le c (cur_loads (dest p'))
     \<and> map fst (dest p') = map fst (dest p)
     \<and> map (\<lambda>x. dest_agent (snd x)) (dest p') = map (\<lambda>x. dest_agent (snd x)) (dest p)"
  using assms
proof (induction routers arbitrary: totals p)
  case Nil
  then show ?case by simp
next
  case (Cons r routers)
  have ne: "totals \<noteq> []" using Cons.prems(1,3) by (cases "dest p") (simp_all add: cur_loads_def)
  have di: "distinct (map fst totals)" using Cons.prems(2,3) by (simp add: cur_loads_keys)
  from min_key_least[OF ne di] obtain k m where
    k: "min_key totals = Inr k" "map_of totals k = Some m" "\<forall>x\<in>snd ` set totals. m \<le> x"
    by blast
  have "map_of (dest p) k \<noteq> None"
    using k(2) Cons.prems(3) map_of_cur_loads_None[of "dest p" k] by auto
  then obtain e where e: "map_of (dest p) k = Some e" by auto
  define d where "d = AList.map_entry k (\<lambda>e. e\<lparr>dest_routers := dest_routers e @ [r]\<rparr>) (dest p)"
  define t where "t = AList.map_entry k (\<lambda>n. n + 1) totals"
  have da: "dest_append k r (dest p) = Inr d" using e by (simp add: dest_append_def d_def)
  have step: "balance_assign (r # routers) totals p = balance_assign routers t (p\<lparr>dest := d\<rparr>)"
    using k(1) da by (simp add: t_def)
  have "\<exists>p'. balance_assign routers t (p\<lparr>dest := d\<rparr>) = (Inr (), p')
      \<and> spread_le c (cur_loads (dest p'))
      \<and> map fst (dest p') = map fst (dest (p\<lparr>dest := d\<rparr>))
      \<and> map (\<lambda>x. dest_agent (snd x)) (dest p') = map (\<lambda>x. dest_agent (snd x)) (dest (p\<lparr>dest := d\<rparr>))"
  proof (rule Cons.IH)
    show "dest (p\<lparr>dest := d\<rparr>) \<noteq> []" using Cons.prems(1) by (cases "dest p") (simp_all add: d_def)
    show "distinct (map fst (dest (p\<lparr>dest := d\<rparr>)))" using Cons.prems(2) by (simp add: map_entry_keys d_def)
    show "t = cur_loads (dest (p\<lparr>dest := d\<rparr>))" using Cons.prems(3) by (simp add: cur_loads_append d_def t_def)
    show "spread_le c t" unfolding t_def using spread_le_step[OF di k(2,3) Cons.prems(4,5)] .
    show "1 \<le> c" by fact
  qed
  then obtain p' where p': "balance_assign routers t (p\<lparr>dest := d\<rparr>) = (Inr (), p')"
      "spread_le c (cur_loads (dest p'))"
      "map fst (dest p') = map fst d"
      "map (\<lambda>x. dest_agent (snd x)) (dest p') = map (\<lambda>x. dest_agent (snd x)) d" by auto
  have "map fst d = map fst (dest p)" by (simp add: d_def map_entry_keys)
  moreover have "map (\<lambda>x. dest_agent (snd x)) d = map (\<lambda>x. dest_agent (snd x)) (dest p)"
    unfolding d_def by (rule map_entry_agents)
  ultimately show ?case using step p' by simp
qed

lemma spread_le_iff:
  assumes "totals \<noteq> []"
  shows "spread_le c totals \<longleftrightarrow> Max (set (map snd totals)) - Min (set (map snd totals)) \<le> c"
proof
  assume h: "spread_le c totals"
  have ne: "set (map snd totals) \<noteq> {}" using assms by simp
  have "Max (set (map snd totals)) \<in> set (map snd totals)" by (rule Max_in[OF _ ne]) simp
  moreover have "Min (set (map snd totals)) \<in> set (map snd totals)" by (rule Min_in[OF _ ne]) simp
  ultimately show "Max (set (map snd totals)) - Min (set (map snd totals)) \<le> c"
    using h unfolding spread_le_def set_map by blast
next
  assume h: "Max (set (map snd totals)) - Min (set (map snd totals)) \<le> c"
  show "spread_le c totals"
    unfolding spread_le_def
  proof (intro ballI)
    fix x y assume "x \<in> snd ` set totals" "y \<in> snd ` set totals"
    then have "x \<le> Max (set (map snd totals))" "Min (set (map snd totals)) \<le> y" by simp_all
    with h show "x - y \<le> c" by linarith
  qed
qed

lemma cur_loads_fresh:
  "fresh_queues d \<Longrightarrow>
   map (\<lambda>(k, e). (k, agent_routers (dest_agent e))) d = cur_loads d"
  by (induction d) (auto simp: cur_loads_def fresh_queues_def)

lemma map_snd_cur_loads_fresh:
  "fresh_queues d \<Longrightarrow>
   map snd (cur_loads d) = map (\<lambda>(k, e). agent_routers (dest_agent e)) d"
  by (induction d) (auto simp: cur_loads_def fresh_queues_def)

lemma map_entry_nth:
  "distinct (map fst al) \<Longrightarrow> j < length al \<Longrightarrow> i < length al \<Longrightarrow>
   AList.map_entry (fst (al ! j)) f al ! i = (if i = j then (fst (al ! j), f (snd (al ! j))) else al ! i)"
proof (induction al arbitrary: i j)
  case Nil then show ?case by simp
next
  case (Cons a al)
  show ?case
  proof (cases j)
    case 0
    then show ?thesis by (cases a; cases i) simp_all
  next
    case (Suc j')
    with Cons.prems have "fst (al ! j') \<in> fst ` set al" by simp
    moreover have "fst a \<notin> fst ` set al" using Cons.prems(1) by simp
    ultimately have neq: "fst (al ! j') \<noteq> fst a" by metis
    show ?thesis
    proof (cases i)
      case 0
      with Suc neq show ?thesis by (cases a) simp
    next
      case (Suc i')
      with \<open>j = Suc j'\<close> neq Cons.prems Cons.IH[of j' i'] show ?thesis by (cases a) simp
    qed
  qed
qed

lemma map_of_nth: "distinct (map fst al) \<Longrightarrow> j < length al \<Longrightarrow> map_of al (fst (al ! j)) = Some (snd (al ! j))"
  by simp

lemma nth_filter_shift:
  "map (nth (r # rs)) (filter P [0..<Suc n])
   = (if P 0 then [r] else []) @ map (nth rs) (filter (\<lambda>k. P (Suc k)) [0..<n])"
proof -
  have "[0..<Suc n] = 0 # map Suc [0..<n]"
    by (simp add: upt_conv_Cons map_Suc_upt del: upt_Suc)
  then show ?thesis by (simp add: filter_map comp_def del: upt_Suc)
qed

lemma cycle_assign_queues:
  assumes "dest_cycle_items p = map fst (dest p)" "distinct (map fst (dest p))" "dest p \<noteq> []"
  shows "\<exists>p'. cycle_assign rs p = (Inr (), p') \<and> map fst (dest p') = map fst (dest p)
     \<and> (\<forall>j<length (dest p). dest_routers (snd (dest p' ! j)) =
           dest_routers (snd (dest p ! j)) @
           map (nth rs) (filter (\<lambda>k. (dest_cycle_pos p + k) mod length (dest p) = j) [0..<length rs]))"
  using assms
proof (induction rs arbitrary: p)
  case Nil
  then show ?case by simp
next
  case (Cons r rs)
  define D where "D = length (dest p)"
  define c where "c = dest_cycle_pos p"
  define j0 where "j0 = c mod D"
  have Dpos: "0 < D" using Cons.prems(3) by (simp add: D_def)
  have j0: "j0 < D" using Dpos by (simp add: j0_def)
  define key where "key = fst (dest p ! j0)"
  define p1 where "p1 = p\<lparr>dest_cycle_pos := c + 1\<rparr>"
  have nx: "dest_cycle_next p = (Inr key, p1)"
    using Cons.prems(1,3) j0
    by (simp add: dest_cycle_next_def key_def j0_def D_def c_def p1_def)
  define f :: "dest_entry \<Rightarrow> dest_entry"
    where "f = (\<lambda>e. e\<lparr>dest_routers := dest_routers e @ [r]\<rparr>)"
  define d where "d = AList.map_entry key f (dest p)"
  have "map_of (dest p) key = Some (snd (dest p ! j0))"
    unfolding key_def using Cons.prems(2) j0 by (intro map_of_nth) (simp_all add: D_def)
  then have da: "dest_append key r (dest p1) = Inr d"
    by (simp add: dest_append_def d_def f_def p1_def)
  define p2 where "p2 = p1\<lparr>dest := d\<rparr>"
  have step: "cycle_assign (r # rs) p = cycle_assign rs p2"
    using nx da by (simp add: p2_def)
  have keys: "map fst d = map fst (dest p)" by (simp add: d_def map_entry_keys)
  then have len: "length d = D" unfolding D_def by (metis length_map)
  have dn: "d ! i = (if i = j0 then (key, f (snd (dest p ! j0))) else dest p ! i)" if "i < D" for i
    unfolding d_def key_def using map_entry_nth[OF Cons.prems(2), of j0 i f] that j0
    by (simp add: D_def)
  have "\<exists>p'. cycle_assign rs p2 = (Inr (), p') \<and> map fst (dest p') = map fst (dest p2)
     \<and> (\<forall>j<length (dest p2). dest_routers (snd (dest p' ! j)) =
           dest_routers (snd (dest p2 ! j)) @
           map (nth rs) (filter (\<lambda>k. (dest_cycle_pos p2 + k) mod length (dest p2) = j) [0..<length rs]))"
  proof (rule Cons.IH)
    show "dest_cycle_items p2 = map fst (dest p2)"
      using Cons.prems(1) keys by (simp add: p2_def p1_def)
    show "distinct (map fst (dest p2))" using Cons.prems(2) keys by (simp add: p2_def)
    show "dest p2 \<noteq> []" using len Dpos by (auto simp: p2_def)
  qed
  then obtain p' where p': "cycle_assign rs p2 = (Inr (), p')" "map fst (dest p') = map fst d"
    and q: "\<And>j. j < D \<Longrightarrow> dest_routers (snd (dest p' ! j)) =
           dest_routers (snd (d ! j)) @
           map (nth rs) (filter (\<lambda>k. (Suc c + k) mod D = j) [0..<length rs])"
    by (auto simp: p2_def p1_def len)
  have "dest_routers (snd (dest p' ! j)) =
           dest_routers (snd (dest p ! j)) @
           map (nth (r # rs)) (filter (\<lambda>k. (c + k) mod D = j) [0..<length (r # rs)])"
    if "j < D" for j
  proof -
    have "dest_routers (snd (d ! j)) = dest_routers (snd (dest p ! j)) @ (if c mod D = j then [r] else [])"
      using dn[OF that] by (auto simp: f_def j0_def)
    then show ?thesis
      using q[OF that] nth_filter_shift[of r rs "\<lambda>k. (c + k) mod D = j" "length rs"]
      by simp
  qed
  then show ?case using step p' keys by (simp add: D_def c_def)
qed

lemma fresh_queues_update:
  "fresh_queues al \<Longrightarrow> dest_routers v = [] \<Longrightarrow> fresh_queues (AList.update k v al)"
  by (induction al) (simp_all add: fresh_queues_def)

lemma Picker_add_dest_wf:
  assumes "distinct (map fst acc)" "fresh_queues acc"
  shows "distinct (map fst (Picker_add_dest src a acc))"
    and "fresh_queues (Picker_add_dest src a acc)"
  using assms by (simp_all add: Picker_add_dest_def distinct_update fresh_queues_update)

lemma fold_dest_wf:
  assumes "distinct (map fst acc)" "fresh_queues acc"
  shows "distinct (map fst (fold (Picker_add_dest src) agents acc)) \<and>
         fresh_queues (fold (Picker_add_dest src) agents acc)"
  using assms
proof (induction agents arbitrary: acc)
  case Nil then show ?case by simp
next
  case (Cons a agents)
  have "distinct (map fst (fold (Picker_add_dest src) agents (Picker_add_dest src a acc))) \<and>
        fresh_queues (fold (Picker_add_dest src) agents (Picker_add_dest src a acc))"
    by (rule Cons.IH) (rule Picker_add_dest_wf[OF Cons.prems])+
  then show ?case unfolding fold_simps .
qed

lemma Picker_init_wf:
  assumes "Picker_init env src w = (Inr p, w')"
  shows "distinct (map fst (dest p)) \<and> dest_cycle_items p = map fst (dest p) \<and>
         dest_cycle_pos p = 0 \<and> fresh_queues (dest p)"
proof (cases "list_agents env w")
  case (Pair res w2)
  show ?thesis
  proof (cases res)
    case (Inl e)
    with Pair assms show ?thesis by (simp add: Picker_init_def)
  next
    case (Inr agents)
    define d where "d = fold (Picker_add_dest src) agents []"
    have p: "p = \<lparr>src_agent = src, dest = d, dest_cycle_items = map fst d,
                   dest_cycle_pos = 0, src_router_count = None\<rparr>"
      using Pair Inr assms by (simp add: Picker_init_def Let_def d_def)
    have "distinct (map fst d) \<and> fresh_queues d"
      unfolding d_def by (rule fold_dest_wf) (simp_all add: fresh_queues_def)
    then show ?thesis by (simp add: p)
  qed
qed

lemmas ex_defs = quiet_env_def ex_agent_def ex_router_def ex_picker_def

text \<open>
  Claim C3, as amended. For a selector whose destination dictionary is non-empty and whose
  queues are empty, \<^verbatim>\<open>BalancePicker.init\<close> returns the number of listed workloads,
  and afterwards the largest destination load (reported load plus queued workloads) exceeds
  the smallest by at most the larger of 1 and the spread of the reported loads. The claim
  as written, a bound of 1 for arbitrary reported loads, fails: see the counterexample
  below.
\<close>

theorem BalancePicker_init_spread:
  assumes "dest p \<noteq> []" and "distinct (map fst (dest p))"
    and "fresh_queues (dest p)"
    and "list_routers_on_l3_agent env (agent_id (src_agent p)) w = (Inr routers, w')"
  shows "\<exists>p'. BalancePicker_init env p w = ((Inr (length routers), p'), w') \<and>
           Max (set (post_loads p')) - Min (set (post_loads p'))
             \<le> max 1 (Max (set (initial_loads p)) - Min (set (initial_loads p)))"
proof -
  define c where "c = max 1 (Max (set (initial_loads p)) - Min (set (initial_loads p)))"
  define p1 where "p1 = p\<lparr>src_router_count := Some (length routers)\<rparr>"
  define totals where "totals = map (\<lambda>(k, e). (k, agent_routers (dest_agent e))) (dest p1)"
  have d1: "dest p1 = dest p" by (simp add: p1_def)
  have t: "totals = cur_loads (dest p1)"
    unfolding totals_def d1 using assms(3) by (rule cur_loads_fresh)
  have ne: "cur_loads (dest p) \<noteq> []" using assms(1) by (simp add: cur_loads_def)
  have "map snd (cur_loads (dest p)) = initial_loads p"
    using map_snd_cur_loads_fresh[OF assms(3)] by (simp add: initial_loads_def)
  then have "spread_le c (cur_loads (dest p))"
    using spread_le_iff[OF ne, of c] by (simp add: c_def)
  then have sp: "spread_le c totals" by (simp add: t d1)
  have "1 \<le> c" by (simp add: c_def)
  from balance_assign_spread[of p1 totals c routers, OF _ _ t sp this] assms(1,2) d1
  obtain p' where p': "balance_assign routers totals p1 = (Inr (), p')"
    "spread_le c (cur_loads (dest p'))" "map fst (dest p') = map fst (dest p)"
    by auto
  have "dest p' \<noteq> []" using p'(3) assms(1) by auto
  then have ne': "cur_loads (dest p') \<noteq> []" by (simp add: cur_loads_def)
  have "Max (set (post_loads p')) - Min (set (post_loads p')) \<le> c"
    using p'(2) spread_le_iff[OF ne', of c] by (simp add: post_loads_def)
  moreover have "BalancePicker_init env p w = ((Inr (length routers), p'), w')"
    using assms(4) p'(1) by (simp add: BalancePicker_init_def Let_def p1_def totals_def)
  ultimately show ?thesis by (auto simp: c_def)
qed

text \<open>
  Claim C3 as written fails: two destinations reporting loads 0 and 10 and one workload
  give post-assignment loads 1 and 10.
\<close>

theorem BalancePicker_init_spread_counterexample:
  "Picker_init (quiet_env [ex_agent ''a1'' 0, ex_agent ''a2'' 10, ex_agent ''src'' 1] [ex_router ''r1''])
       (ex_agent ''src'' 1) ()
     = (Inr (ex_picker (ex_agent ''src'' 1) [ex_agent ''a1'' 0, ex_agent ''a2'' 10]), ()) \<and>
   fst (fst (BalancePicker_init (quiet_env [] [ex_router ''r1''])
       (ex_picker (ex_agent ''src'' 1) [ex_agent ''a1'' 0, ex_agent ''a2'' 10]) ())) = Inr 1 \<and>
   post_loads (snd (fst (BalancePicker_init (quiet_env [] [ex_router ''r1''])
       (ex_picker (ex_agent ''src'' 1) [ex_agent ''a1'' 0, ex_agent ''a2'' 10]) ()))) = [1, 10] \<and>
   \<not> (Max (set (post_loads (snd (fst (BalancePicker_init (quiet_env [] [ex_router ''r1''])
       (ex_picker (ex_agent ''src'' 1) [ex_agent ''a1'' 0, ex_agent ''a2'' 10]) ())))))
      - Min (set (post_loads (snd (fst (BalancePicker_init (quiet_env [] [ex_router ''r1''])
       (ex_picker (ex_agent ''src'' 1) [ex_agent ''a1'' 0, ex_agent ''a2'' 10]) ()))))) \<le> 1)"
  by (simp add: ex_defs Picker_init_def Picker_add_dest_def BalancePicker_init_def min_key_def
      dest_append_def post_loads_def cur_loads_def)

theorem BalancePicker_init_spread_witness:
  "dest (ex_picker (ex_agent ''src'' 3) [ex_agent ''a1'' 2, ex_agent ''a2'' 2]) \<noteq> [] \<and>
   distinct (map fst (dest (ex_picker (ex_agent ''src'' 3) [ex_agent ''a1'' 2, ex_agent ''a2'' 2]))) \<and>
   fresh_queues (dest (ex_picker (ex_agent ''src'' 3) [ex_agent ''a1'' 2, ex_agent ''a2'' 2])) \<and>
   (\<exists>p'. BalancePicker_init (quiet_env [] [ex_router ''r1'', ex_router ''r2'', ex_router ''r3''])
            (ex_picker (ex_agent ''src'' 3) [ex_agent ''a1'' 2, ex_agent ''a2'' 2]) ()
          = ((Inr 3, p'), ()) \<and>
          Max (set (post_loads p')) - Min (set (post_loads p')) \<le> 1)"
proof -
  define P where "P = ex_picker (ex_agent ''src'' 3) [ex_agent ''a1'' 2, ex_agent ''a2'' 2]"
  define E where "E = quiet_env [] [ex_router ''r1'', ex_router ''r2'', ex_router ''r3'']"
  have h1: "dest P \<noteq> []" by (simp add: P_def ex_picker_def)
  have h2: "distinct (map fst (dest P))" by (simp add: P_def ex_picker_def ex_agent_def)
  have h3: "fresh_queues (dest P)" by (simp add: P_def ex_picker_def fresh_queues_def)
  have h4: "list_routers_on_l3_agent E (agent_id (src_agent P)) ()
      = (Inr [ex_router ''r1'', ex_router ''r2'', ex_router ''r3''], ())"
    by (simp add: E_def quiet_env_def)
  have m: "max 1 (Max (set (initial_loads P)) - Min (set (initial_loads P))) = 1"
    by (simp add: P_def ex_picker_def ex_agent_def initial_loads_def)
  from BalancePicker_init_spread[OF h1 h2 h3 h4] obtain p' where
    "BalancePicker_init E P () = ((Inr 3, p'), ())"
    "Max (set (post_loads p')) - Min (set (post_loads p')) \<le> 1"
    unfolding m by auto
  with h1 h2 h3 show ?thesis unfolding P_def E_def by blast
qed

text \<open>
  Without a destination, \<^verbatim>\<open>init\<close> raises as soon as the source hosts a workload; it
  returns 0 when the source hosts none.
\<close>

lemma init_without_destinations:
  assumes "dest p = []" and "dest_cycle_items p = []"
    and "list_routers_on_l3_agent env (agent_id (src_agent p)) w = (Inr (r # routers), w')"
  shows "fst (fst (BalancePicker_init env p w)) = Inl ValueError"
    and "fst (fst (CyclePicker_init env p w)) = Inl StopIteration"
  using assms
  by (simp_all add: BalancePicker_init_def CyclePicker_init_def min_key_def dest_cycle_next_def)

lemma init_without_workloads:
  assumes "list_routers_on_l3_agent env (agent_id (src_agent p)) w = (Inr [], w')"
  shows "fst (fst (BalancePicker_init env p w)) = Inr 0"
    and "fst (fst (CyclePicker_init env p w)) = Inr 0"
  using assms by (simp_all add: BalancePicker_init_def CyclePicker_init_def)

text \<open>
  Claim C2. With no eligible destination and one workload on the source,
  \<^verbatim>\<open>BalancePicker.init\<close> raises \<^verbatim>\<open>ValueError\<close> (\<^verbatim>\<open>min\<close> of an empty sequence) and
  \<^verbatim>\<open>CyclePicker.init\<close> raises \<^verbatim>\<open>StopIteration\<close> (\<^verbatim>\<open>next\<close> of an empty cycle): neither
  returns a count.
\<close>

theorem init_without_destinations_raises:
  "Picker_init (quiet_env [ex_agent ''src'' 1] [ex_router ''r1'']) (ex_agent ''src'' 1) ()
     = (Inr (ex_picker (ex_agent ''src'' 1) []), ()) \<and>
   fst (fst (BalancePicker_init (quiet_env [ex_agent ''src'' 1] [ex_router ''r1''])
        (ex_picker (ex_agent ''src'' 1) []) ())) = Inl ValueError \<and>
   fst (fst (CyclePicker_init (quiet_env [ex_agent ''src'' 1] [ex_router ''r1''])
        (ex_picker (ex_agent ''src'' 1) []) ())) = Inl StopIteration"
  by (simp add: ex_defs Picker_init_def Picker_add_dest_def BalancePicker_init_def
      CyclePicker_init_def min_key_def dest_cycle_next_def)

text \<open>
  Claim C7. For a selector built by \<^verbatim>\<open>Picker.__init__\<close> with \<open>D \<ge> 1\<close> destinations,
  \<^verbatim>\<open>CyclePicker.init\<close> returns the number of listed workloads, leaves the destination
  order unchanged, and queues the workload at listing position \<open>k\<close> for the destination at
  position \<open>k mod D\<close>: the queue of destination \<open>j\<close> is exactly the workloads at the
  positions \<open>k\<close> with \<open>k mod D = j\<close>, in listing order.
\<close>

theorem CyclePicker_init_round_robin:
  assumes "Picker_init env src w0 = (Inr p, w1)" and "1 \<le> length (dest p)"
    and "list_routers_on_l3_agent env (agent_id (src_agent p)) w = (Inr routers, w')"
  shows "\<exists>p'. CyclePicker_init env p w = ((Inr (length routers), p'), w') \<and>
           map fst (dest p') = map fst (dest p) \<and>
           (\<forall>k<length routers.
              routers ! k \<in> set (dest_routers (snd (dest p' ! (k mod length (dest p)))))) \<and>
           (\<forall>j<length (dest p).
              dest_routers (snd (dest p' ! j)) =
                map (nth routers) (filter (\<lambda>k. k mod length (dest p) = j) [0..<length routers]))"
proof -
  note wf = Picker_init_wf[OF assms(1)]
  define p1 where "p1 = p\<lparr>src_router_count := Some (length routers)\<rparr>"
  have ne: "dest p \<noteq> []" using assms(2) by auto
  have "dest_cycle_items p1 = map fst (dest p1)" "distinct (map fst (dest p1))" "dest p1 \<noteq> []"
    using wf ne by (simp_all add: p1_def)
  from cycle_assign_queues[OF this, of routers]
  obtain p' where p': "cycle_assign routers p1 = (Inr (), p')" "map fst (dest p') = map fst (dest p)"
    and q: "\<And>j. j < length (dest p) \<Longrightarrow> dest_routers (snd (dest p' ! j)) =
           dest_routers (snd (dest p ! j)) @
           map (nth routers) (filter (\<lambda>k. k mod length (dest p) = j) [0..<length routers])"
    using wf by (auto simp: p1_def)
  have empty: "dest_routers (snd (dest p ! j)) = []" if "j < length (dest p)" for j
    using wf that by (simp add: fresh_queues_def list_all_length)
  have full: "dest_routers (snd (dest p' ! j)) =
      map (nth routers) (filter (\<lambda>k. k mod length (dest p) = j) [0..<length routers])"
    if "j < length (dest p)" for j
    using q[OF that] empty[OF that] by simp
  have mem: "routers ! k \<in> set (dest_routers (snd (dest p' ! (k mod length (dest p)))))"
    if "k < length routers" for k
  proof -
    have "k mod length (dest p) < length (dest p)" using ne by simp
    from full[OF this] that show ?thesis by simp
  qed
  have "CyclePicker_init env p w = ((Inr (length routers), p'), w')"
    using assms(3) p'(1) by (simp add: CyclePicker_init_def Let_def p1_def)
  moreover note p'(2)
  moreover have "\<forall>k<length routers.
              routers ! k \<in> set (dest_routers (snd (dest p' ! (k mod length (dest p)))))"
    using mem by simp
  moreover have "\<forall>j<length (dest p).
              dest_routers (snd (dest p' ! j)) =
                map (nth routers) (filter (\<lambda>k. k mod length (dest p) = j) [0..<length routers])"
    using full by simp
  ultimately show ?thesis by (intro exI[of _ p'] conjI)
qed

theorem CyclePicker_init_round_robin_witness:
  "Picker_init (quiet_env [ex_agent ''a1'' 0, ex_agent ''src'' 3, ex_agent ''a2'' 5]
                 [ex_router ''r1'', ex_router ''r2'', ex_router ''r3''])
       (ex_agent ''src'' 3) ()
     = (Inr (ex_picker (ex_agent ''src'' 3) [ex_agent ''a1'' 0, ex_agent ''a2'' 5]), ()) \<and>
   1 \<le> length (dest (ex_picker (ex_agent ''src'' 3) [ex_agent ''a1'' 0, ex_agent ''a2'' 5])) \<and>
   (\<exists>p'. CyclePicker_init (quiet_env [ex_agent ''a1'' 0, ex_agent ''src'' 3, ex_agent ''a2'' 5]
                 [ex_router ''r1'', ex_router ''r2'', ex_router ''r3''])
             (ex_picker (ex_agent ''src'' 3) [ex_agent ''a1'' 0, ex_agent ''a2'' 5]) ()
           = ((Inr 3, p'), ()) \<and>
          map fst (dest p') = [''a1'', ''a2''] \<and>
          dest_routers (snd (dest p' ! 0)) = [ex_router ''r1'', ex_router ''r3''] \<and>
          dest_routers (snd (dest p' ! 1)) = [ex_router ''r2''])"
proof -
  have pi: "Picker_init (quiet_env [ex_agent ''a1'' 0, ex_agent ''src'' 3, ex_agent ''a2'' 5]
                 [ex_router ''r1'', ex_router ''r2'', ex_router ''r3''])
       (ex_agent ''src'' 3) ()
     = (Inr (ex_picker (ex_agent ''src'' 3) [ex_agent ''a1'' 0, ex_agent ''a2'' 5]), ())"
    by (simp add: ex_defs Picker_init_def Picker_add_dest_def)
  have len: "1 \<le> length (dest (ex_picker (ex_agent ''src'' 3) [ex_agent ''a1'' 0, ex_agent ''a2'' 5]))"
    by (simp add: ex_picker_def)
  have lr: "list_routers_on_l3_agent (quiet_env [ex_agent ''a1'' 0, ex_agent ''src'' 3, ex_agent ''a2'' 5]
                 [ex_router ''r1'', ex_router ''r2'', ex_router ''r3''])
        (agent_id (src_agent (ex_picker (ex_agent ''src'' 3) [ex_agent ''a1'' 0, ex_agent ''a2'' 5]))) ()
      = (Inr [ex_router ''r1'', ex_router ''r2'', ex_router ''r3''], ())"
    by (simp add: quiet_env_def)
  define P where "P = ex_picker (ex_agent ''src'' 3) [ex_agent ''a1'' 0, ex_agent ''a2'' 5]"
  define R where "R = [ex_router ''r1'', ex_router ''r2'', ex_router ''r3'']"
  have D: "length (dest P) = 2" by (simp add: P_def ex_picker_def)
  have f0: "map (nth R) (filter (\<lambda>k. k mod 2 = 0) [0..<length R]) = [ex_router ''r1'', ex_router ''r3'']"
    by (simp add: R_def upt_rec)
  have f1: "map (nth R) (filter (\<lambda>k. k mod 2 = 1) [0..<length R]) = [ex_router ''r2'']"
    by (simp add: R_def upt_rec)
  from CyclePicker_init_round_robin[OF pi len lr] obtain p' where
    r: "CyclePicker_init (quiet_env [ex_agent ''a1'' 0, ex_agent ''src'' 3, ex_agent ''a2'' 5] R) P ()
          = ((Inr (length R), p'), ())"
    and k: "map fst (dest p') = map fst (dest P)"
    and q: "\<forall>j<length (dest P). dest_routers (snd (dest p' ! j)) =
                map (nth R) (filter (\<lambda>k. k mod length (dest P) = j) [0..<length R])"
    unfolding P_def R_def by blast
  have q0: "dest_routers (snd (dest p' ! 0)) = [ex_router ''r1'', ex_router ''r3'']"
    using q[rule_format, of 0] f0 by (simp add: D)
  have q1: "dest_routers (snd (dest p' ! 1)) = [ex_router ''r2'']"
    using q[rule_format, of 1] f1 by (simp add: D)
  have k': "map fst (dest p') = [''a1'', ''a2'']"
    using k by (simp add: P_def ex_picker_def ex_agent_def)
  have "length R = 3" by (simp add: R_def)
  with r have r': "CyclePicker_init (quiet_env [ex_agent ''a1'' 0, ex_agent ''src'' 3, ex_agent ''a2'' 5] R) P ()
          = ((Inr 3, p'), ())" by simp
  note facts = pi len r'[unfolded P_def R_def] k' q0 q1
  show ?thesis by (intro conjI exI[of _ p']) (rule facts)+
qed

section \<open>Properties of the host verifier\<close>

text \<open>\<^const>\<open>split_on\<close> cuts a string at every separator and nowhere else.\<close>

lemma split_on_not_Nil: "split_on sep s \<noteq> []"
  by (induction s) (auto split: list.splits)

lemma split_on_no_sep: "w \<in> set (split_on sep s) \<Longrightarrow> sep \<notin> set w"
  by (induction s arbitrary: w) (auto split: list.splits if_splits)

lemma split_on_length: "length (split_on sep s) = Suc (count_list s sep)"
  by (induction s) (auto split: list.splits simp: split_on_not_Nil)

lemma split_on_concat: "concat (map (\<lambda>w. sep # w) (split_on sep s)) = sep # s"
  by (induction s) (auto split: list.splits simp: split_on_not_Nil)

lemma str_contains_iff: "str_contains sub s \<longleftrightarrow> (\<exists>pre suf. s = pre @ sub @ suf)"
proof (induction s)
  case Nil
  then show ?case by auto
next
  case (Cons c cs)
  have "take (length sub) (c # cs) = sub \<longleftrightarrow> (\<exists>suf. c # cs = sub @ suf)"
    by (metis append_eq_conv_conj)
  moreover have "(\<exists>pre suf. c # cs = pre @ sub @ suf) \<longleftrightarrow>
        (\<exists>suf. c # cs = sub @ suf) \<or> (\<exists>pre suf. cs = pre @ sub @ suf)"
  proof
    assume "\<exists>pre suf. c # cs = pre @ sub @ suf"
    then obtain pre suf where e: "c # cs = pre @ sub @ suf" by blast
    show "(\<exists>suf. c # cs = sub @ suf) \<or> (\<exists>pre suf. cs = pre @ sub @ suf)"
    proof (cases pre)
      case Nil with e show ?thesis by auto
    next
      case (Cons a pre') with e show ?thesis by auto
    qed
  next
    assume "(\<exists>suf. c # cs = sub @ suf) \<or> (\<exists>pre suf. cs = pre @ sub @ suf)"
    then show "\<exists>pre suf. c # cs = pre @ sub @ suf"
    proof
      assume "\<exists>suf. c # cs = sub @ suf"
      then show ?thesis by (metis append_Nil)
    next
      assume "\<exists>pre suf. cs = pre @ sub @ suf"
      then show ?thesis by (metis append_Cons)
    qed
  qed
  ultimately show ?case using Cons.IH by simp
qed

lemma RemoteRunner_run_eq:
  "remote_exec env host cmd (world s) = ((rc, out, err), w') \<Longrightarrow>
   RemoteRunner_run env host cmd s =
     ((rc = 0, if rc = 0 then out else err), \<lparr>world = w', trace = trace s @ [RunCmd host cmd]\<rparr>)"
  by (simp add: RemoteRunner_run_def)

lemma RemoteRunner_run_trace:
  "trace (snd (RemoteRunner_run env host cmd s)) = trace s @ [RunCmd host cmd]"
  by (cases "remote_exec env host cmd (world s)") (auto simp: RemoteRunner_run_def Let_def)

lemma list_nics_eq:
  assumes "remote_exec env host (cmd_list_nic_in_netns netns) (world s) = ((rc, out, err), w')"
  shows "list_nics_in_netns_on_remote env host netns s =
     (if rc = 0 then Inr (filter (\<lambda>one_nic. one_nic \<noteq> ''lo'') (split_on newline out))
      else if str_contains ''Cannot open network namespace'' err then Inr []
      else Inl (Exception (''Failed list nics in namespace '' @ netns @ '' on host ['' @ host @ '']'')),
      \<lparr>world = w', trace = trace s @ [RunCmd host (cmd_list_nic_in_netns netns)]\<rparr>)"
  by (simp add: list_nics_in_netns_on_remote_def RemoteRunner_run_eq[OF assms])

lemma list_nics_trace:
  "trace (snd (list_nics_in_netns_on_remote env host netns s))
     = trace s @ [RunCmd host (cmd_list_nic_in_netns netns)]"
proof -
  obtain rc out err w' where
    "remote_exec env host (cmd_list_nic_in_netns netns) (world s) = ((rc, out, err), w')"
    by (metis prod.exhaust)
  from list_nics_eq[OF this] show ?thesis by simp
qed

lemma list_nics_no_lo:
  "fst (list_nics_in_netns_on_remote env host netns s) = Inr nics \<Longrightarrow> ''lo'' \<notin> set nics"
proof -
  assume a: "fst (list_nics_in_netns_on_remote env host netns s) = Inr nics"
  obtain rc out err w' where
    "remote_exec env host (cmd_list_nic_in_netns netns) (world s) = ((rc, out, err), w')"
    by (metis prod.exhaust)
  from list_nics_eq[OF this] a show ?thesis by (auto split: if_splits)
qed

lemma clean_nics_trace:
  "trace (clean_nics_on_host env host nics s)
     = trace s @ map (\<lambda>n. RunCmd host (cmd_delete_ovs_port n (bridge_of n))) nics"
proof (induction nics arbitrary: s)
  case Nil
  then show ?case by simp
next
  case (Cons n nics)
  have "clean_nics_on_host env host (n # nics) s =
        clean_nics_on_host env host nics
          (snd (RemoteRunner_run env host (cmd_delete_ovs_port n (bridge_of n)) s))"
    by (simp add: bridge_of_def split_def)
  then show ?case by (simp add: Cons.IH RemoteRunner_run_trace)
qed

lemma clean_netns_trace:
  "trace (clean_netns_on_host env host ns s) = trace s @ [RunCmd host (cmd_delete_netns ns)]"
  by (simp add: clean_netns_on_host_def RemoteRunner_run_trace)

lemma ensure_clean_result:
  "ensure_clean_router_on_host env ag r s =
    (case list_nics_in_netns_on_remote env (agent_host ag) (namespace_of r) s of
       (Inl e, s1) \<Rightarrow> (Inl e, s1)
     | (Inr nics, s1) \<Rightarrow>
         (Inr True,
          if nics = [] then s1
          else clean_netns_on_host env (agent_host ag) (namespace_of r)
                 (clean_nics_on_host env (agent_host ag) nics s1)))"
  by (simp add: ensure_clean_router_on_host_def Let_def split: prod.splits sum.splits)

lemma ensure_clean_trace:
  "trace (snd (ensure_clean_router_on_host env ag r s)) =
     trace s @ RunCmd (agent_host ag) (cmd_list_nic_in_netns (namespace_of r)) #
       (case fst (list_nics_in_netns_on_remote env (agent_host ag) (namespace_of r) s) of
          Inl e \<Rightarrow> []
        | Inr nics \<Rightarrow>
            if nics = [] then []
            else map (\<lambda>n. RunCmd (agent_host ag) (cmd_delete_ovs_port n (bridge_of n))) nics
                 @ [RunCmd (agent_host ag) (cmd_delete_netns (namespace_of r))])"
proof (cases "list_nics_in_netns_on_remote env (agent_host ag) (namespace_of r) s")
  case (Pair res s1)
  then have t1: "trace s1 = trace s @ [RunCmd (agent_host ag) (cmd_list_nic_in_netns (namespace_of r))]"
    using list_nics_trace[of env "agent_host ag" "namespace_of r" s] by simp
  show ?thesis
    by (cases res) (simp_all add: ensure_clean_result Pair t1 clean_netns_trace clean_nics_trace)
qed

lemma ensure_clean_ok:
  "fst (list_nics_in_netns_on_remote env (agent_host ag) (namespace_of r) t) = Inr ns \<Longrightarrow>
   fst (ensure_clean_router_on_host env ag r t) = Inr True"
  by (cases "list_nics_in_netns_on_remote env (agent_host ag) (namespace_of r) t")
     (simp add: ensure_clean_result)

lemma new_events_append: "trace s' = trace s @ evs \<Longrightarrow> new_events s s' = evs"
  by (simp add: new_events_def)

text \<open>
  Claim C8. When the remote command succeeds (exit status 0) the listing is the lines of
  its output other than \<^verbatim>\<open>lo\<close>; when it fails, the listing is the empty list exactly
  when the error output contains \<^verbatim>\<open>Cannot open network namespace\<close>, and an exception
  is raised exactly when it does not.
\<close>

theorem list_nics_in_netns_on_remote_outcome:
  assumes "remote_exec env host (cmd_list_nic_in_netns netns) (world s) = ((rc, out, err), w')"
  shows "(rc = 0 \<longrightarrow>
            fst (list_nics_in_netns_on_remote env host netns s)
              = Inr (filter (\<lambda>one_nic. one_nic \<noteq> ''lo'') (split_on newline out))) \<and>
         (rc \<noteq> 0 \<longrightarrow>
            (fst (list_nics_in_netns_on_remote env host netns s) = Inr [] \<longleftrightarrow>
               (\<exists>pre suf. err = pre @ ''Cannot open network namespace'' @ suf))) \<and>
         (rc \<noteq> 0 \<longrightarrow>
            ((\<exists>e. fst (list_nics_in_netns_on_remote env host netns s) = Inl e) \<longleftrightarrow>
               \<not> (\<exists>pre suf. err = pre @ ''Cannot open network namespace'' @ suf)))"
  unfolding list_nics_eq[OF assms] str_contains_iff[symmetric] by simp

theorem list_nics_in_netns_on_remote_outcome_witness:
  "fst (list_nics_in_netns_on_remote (const_runner 0 (''lo'' @ [newline] @ ''qr-abc'') [])
          ''h1'' ''qrouter-r1'' s0) = Inr [''qr-abc''] \<and>
   fst (list_nics_in_netns_on_remote
          (const_runner 1 [] ''Cannot open network namespace qrouter-r1: No such file or directory'')
          ''h1'' ''qrouter-r1'' s0) = Inr [] \<and>
   (\<exists>e. fst (list_nics_in_netns_on_remote
          (const_runner 255 [] ''ssh: connect to host h1 port 22: Connection timed out'')
          ''h1'' ''qrouter-r1'' s0) = Inl e)"
proof (intro conjI)
  have r: "remote_exec (const_runner rc out err) host cmd (world s0) = ((rc, out, err), ())"
    for rc out err host cmd
    by (simp add: const_runner_def s0_def)
  show "fst (list_nics_in_netns_on_remote (const_runner 0 (''lo'' @ [newline] @ ''qr-abc'') [])
          ''h1'' ''qrouter-r1'' s0) = Inr [''qr-abc'']"
    using list_nics_in_netns_on_remote_outcome[OF r, of 0 "''lo'' @ [newline] @ ''qr-abc''" "[]"
        "''h1''" "''qrouter-r1''"]
    by (simp add: newline_def)
  have "str_contains ''Cannot open network namespace''
          ''Cannot open network namespace qrouter-r1: No such file or directory''"
    by simp
  then have "\<exists>pre suf. ''Cannot open network namespace qrouter-r1: No such file or directory''
      = pre @ ''Cannot open network namespace'' @ suf"
    by (simp only: str_contains_iff)
  then show "fst (list_nics_in_netns_on_remote
          (const_runner 1 [] ''Cannot open network namespace qrouter-r1: No such file or directory'')
          ''h1'' ''qrouter-r1'' s0) = Inr []"
    using list_nics_in_netns_on_remote_outcome[OF r, of 1 "[]"
        "''Cannot open network namespace qrouter-r1: No such file or directory''"
        "''h1''" "''qrouter-r1''"]
    by simp
  have "\<not> (\<exists>pre suf. ''ssh: connect to host h1 port 22: Connection timed out''
      = pre @ ''Cannot open network namespace'' @ suf)"
    unfolding str_contains_iff[symmetric] by simp
  then show "\<exists>e. fst (list_nics_in_netns_on_remote
          (const_runner 255 [] ''ssh: connect to host h1 port 22: Connection timed out'')
          ''h1'' ''qrouter-r1'' s0) = Inl e"
    using list_nics_in_netns_on_remote_outcome[OF r, of 255 "[]"
        "''ssh: connect to host h1 port 22: Connection timed out''"
        "''h1''" "''qrouter-r1''"]
    by (metis zero_neq_numeral)
qed

lemma list_nics_const_runner:
  "list_nics_in_netns_on_remote (const_runner 0 out err) host netns s =
     (Inr (filter (\<lambda>one_nic. one_nic \<noteq> ''lo'') (split_on newline out)),
      \<lparr>world = (), trace = trace s @ [RunCmd host (cmd_list_nic_in_netns netns)]\<rparr>)"
  by (rule list_nics_eq[of "const_runner 0 out err" host netns s 0 out err "()", simplified])
     (simp add: const_runner_def)

text \<open>
  Claim C9. \<^verbatim>\<open>_ensure_clean_router_on_host\<close> returns true whenever the listing of the
  namespace does not raise. When the listing is empty it returns true and the only
  command it issues is the listing itself; so two calls in succession that both find the
  namespace empty both return true and issue the two listings and nothing else.
\<close>

theorem ensure_clean_router_on_host_idempotent:
  "(fst (list_nics_in_netns_on_remote env (agent_host ag) (namespace_of r) s) = Inr nics \<longrightarrow>
      fst (ensure_clean_router_on_host env ag r s) = Inr True) \<and>
   (fst (list_nics_in_netns_on_remote env (agent_host ag) (namespace_of r) s) = Inr [] \<longrightarrow>
      fst (ensure_clean_router_on_host env ag r s) = Inr True \<and>
      new_events s (snd (ensure_clean_router_on_host env ag r s))
        = [RunCmd (agent_host ag) (cmd_list_nic_in_netns (namespace_of r))]) \<and>
   (fst (list_nics_in_netns_on_remote env (agent_host ag) (namespace_of r) s) = Inr [] \<and>
    fst (list_nics_in_netns_on_remote env (agent_host ag) (namespace_of r)
           (snd (ensure_clean_router_on_host env ag r s))) = Inr [] \<longrightarrow>
      fst (ensure_clean_router_on_host env ag r s) = Inr True \<and>
      fst (ensure_clean_router_on_host env ag r (snd (ensure_clean_router_on_host env ag r s)))
        = Inr True \<and>
      new_events s (snd (ensure_clean_router_on_host env ag r
                           (snd (ensure_clean_router_on_host env ag r s))))
        = [RunCmd (agent_host ag) (cmd_list_nic_in_netns (namespace_of r)),
           RunCmd (agent_host ag) (cmd_list_nic_in_netns (namespace_of r))])"
proof -
  have ok: "fst (ensure_clean_router_on_host env ag r t) = Inr True"
    if "fst (list_nics_in_netns_on_remote env (agent_host ag) (namespace_of r) t) = Inr ns"
    for t ns
    using that by (rule ensure_clean_ok)
  have tr: "trace (snd (ensure_clean_router_on_host env ag r t))
        = trace t @ [RunCmd (agent_host ag) (cmd_list_nic_in_netns (namespace_of r))]"
    if "fst (list_nics_in_netns_on_remote env (agent_host ag) (namespace_of r) t) = Inr []"
    for t
    using that by (simp add: ensure_clean_trace)
  show ?thesis
    using ok tr by (auto intro!: new_events_append)
qed

theorem ensure_clean_router_on_host_idempotent_witness:
  "fst (list_nics_in_netns_on_remote (const_runner 0 ''qr-abc'' []) (agent_host (ex_agent ''a1'' 0))
         (namespace_of (ex_router ''r1'')) s0) = Inr [''qr-abc''] \<and>
   fst (ensure_clean_router_on_host (const_runner 0 ''qr-abc'' []) (ex_agent ''a1'' 0)
         (ex_router ''r1'') s0) = Inr True \<and>
   fst (list_nics_in_netns_on_remote (const_runner 0 ''lo'' []) (agent_host (ex_agent ''a1'' 0))
         (namespace_of (ex_router ''r1'')) s0) = Inr [] \<and>
   fst (list_nics_in_netns_on_remote (const_runner 0 ''lo'' []) (agent_host (ex_agent ''a1'' 0))
         (namespace_of (ex_router ''r1''))
         (snd (ensure_clean_router_on_host (const_runner 0 ''lo'' []) (ex_agent ''a1'' 0)
                (ex_router ''r1'') s0))) = Inr [] \<and>
   fst (ensure_clean_router_on_host (const_runner 0 ''lo'' []) (ex_agent ''a1'' 0)
         (ex_router ''r1'') s0) = Inr True \<and>
   fst (ensure_clean_router_on_host (const_runner 0 ''lo'' []) (ex_agent ''a1'' 0) (ex_router ''r1'')
         (snd (ensure_clean_router_on_host (const_runner 0 ''lo'' []) (ex_agent ''a1'' 0)
                (ex_router ''r1'') s0))) = Inr True \<and>
   new_events s0
     (snd (ensure_clean_router_on_host (const_runner 0 ''lo'' []) (ex_agent ''a1'' 0) (ex_router ''r1'')
         (snd (ensure_clean_router_on_host (const_runner 0 ''lo'' []) (ex_agent ''a1'' 0)
                (ex_router ''r1'') s0))))
     = [RunCmd ''host-a1'' [''ip'', ''netns'', ''exec'', ''qrouter-r1'', ''ls'', ''-1'', ''/sys/class/net/''],
        RunCmd ''host-a1'' [''ip'', ''netns'', ''exec'', ''qrouter-r1'', ''ls'', ''-1'', ''/sys/class/net/'']]"
proof -
  have l1: "fst (list_nics_in_netns_on_remote (const_runner 0 ''qr-abc'' [])
         (agent_host (ex_agent ''a1'' 0)) (namespace_of (ex_router ''r1'')) s0) = Inr [''qr-abc'']"
    by (simp add: list_nics_const_runner newline_def)
  have l2: "fst (list_nics_in_netns_on_remote (const_runner 0 ''lo'' [])
         (agent_host (ex_agent ''a1'' 0)) (namespace_of (ex_router ''r1'')) t) = Inr []" for t
    by (simp add: list_nics_const_runner newline_def)
  have c: "cmd_list_nic_in_netns (namespace_of (ex_router ''r1''))
      = [''ip'', ''netns'', ''exec'', ''qrouter-r1'', ''ls'', ''-1'', ''/sys/class/net/'']"
    by (simp add: cmd_list_nic_in_netns_def namespace_of_def ex_router_def)
  have h: "agent_host (ex_agent ''a1'' 0) = ''host-a1''" by (simp add: ex_agent_def)
  note a = ensure_clean_router_on_host_idempotent[of "const_runner 0 ''qr-abc'' []"
      "ex_agent ''a1'' 0" "ex_router ''r1''" s0 "[''qr-abc'']"]
  note b = ensure_clean_router_on_host_idempotent[of "const_runner 0 ''lo'' []"
      "ex_agent ''a1'' 0" "ex_router ''r1''" s0 "[]"]
  from a l1 have r1: "fst (ensure_clean_router_on_host (const_runner 0 ''qr-abc'' []) (ex_agent ''a1'' 0)
         (ex_router ''r1'') s0) = Inr True" by blast
  from b l2 have r2: "fst (ensure_clean_router_on_host (const_runner 0 ''lo'' []) (ex_agent ''a1'' 0)
         (ex_router ''r1'') s0) = Inr True \<and>
   fst (ensure_clean_router_on_host (const_runner 0 ''lo'' []) (ex_agent ''a1'' 0) (ex_router ''r1'')
         (snd (ensure_clean_router_on_host (const_runner 0 ''lo'' []) (ex_agent ''a1'' 0)
                (ex_router ''r1'') s0))) = Inr True \<and>
   new_events s0
     (snd (ensure_clean_router_on_host (const_runner 0 ''lo'' []) (ex_agent ''a1'' 0) (ex_router ''r1'')
         (snd (ensure_clean_router_on_host (const_runner 0 ''lo'' []) (ex_agent ''a1'' 0)
                (ex_router ''r1'') s0))))
     = [RunCmd (agent_host (ex_agent ''a1'' 0)) (cmd_list_nic_in_netns (namespace_of (ex_router ''r1''))),
        RunCmd (agent_host (ex_agent ''a1'' 0)) (cmd_list_nic_in_netns (namespace_of (ex_router ''r1'')))]"
    by blast
  show ?thesis using l1 l2 r1 r2 unfolding c h by blast
qed

text \<open>
  Claim C10. The listing never contains \<^verbatim>\<open>lo\<close>; a namespace whose listing command
  prints just \<^verbatim>\<open>lo\<close> is clean (true is returned after the listing command alone); and
  no command issued by \<^verbatim>\<open>_ensure_clean_router_on_host\<close> deletes the port \<^verbatim>\<open>lo\<close>,
  through any bridge.
\<close>

theorem loopback_never_listed_nor_deleted:
  "(fst (list_nics_in_netns_on_remote env host netns s) = Inr nics \<longrightarrow> ''lo'' \<notin> set nics) \<and>
   (remote_exec env (agent_host ag) (cmd_list_nic_in_netns (namespace_of r)) (world s)
        = ((0, ''lo'', err), w') \<longrightarrow>
      fst (ensure_clean_router_on_host env ag r s) = Inr True \<and>
      new_events s (snd (ensure_clean_router_on_host env ag r s))
        = [RunCmd (agent_host ag) (cmd_list_nic_in_netns (namespace_of r))]) \<and>
   RunCmd h (cmd_delete_ovs_port ''lo'' br)
     \<notin> set (new_events s (snd (ensure_clean_router_on_host env ag r s)))"
proof (intro conjI impI)
  assume "fst (list_nics_in_netns_on_remote env host netns s) = Inr nics"
  then show "''lo'' \<notin> set nics" by (rule list_nics_no_lo)
next
  assume a: "remote_exec env (agent_host ag) (cmd_list_nic_in_netns (namespace_of r)) (world s)
        = ((0, ''lo'', err), w')"
  have l: "fst (list_nics_in_netns_on_remote env (agent_host ag) (namespace_of r) s) = Inr []"
    using list_nics_eq[OF a] by (simp add: newline_def)
  then show "fst (ensure_clean_router_on_host env ag r s) = Inr True"
    by (rule ensure_clean_ok)
  show "new_events s (snd (ensure_clean_router_on_host env ag r s))
        = [RunCmd (agent_host ag) (cmd_list_nic_in_netns (namespace_of r))]"
    by (rule new_events_append) (simp add: ensure_clean_trace l)
next
  define L where "L = fst (list_nics_in_netns_on_remote env (agent_host ag) (namespace_of r) s)"
  have ne: "cmd_list_nic_in_netns n \<noteq> cmd_delete_ovs_port p b"
           "cmd_delete_netns n \<noteq> cmd_delete_ovs_port p b" for n p b
    by (simp_all add: cmd_list_nic_in_netns_def cmd_delete_ovs_port_def cmd_delete_netns_def)
  have inj: "cmd_delete_ovs_port p b = cmd_delete_ovs_port p' b' \<longleftrightarrow> p = p' \<and> b = b'"
    for p b p' b'
    by (auto simp: cmd_delete_ovs_port_def)
  have ev: "new_events s (snd (ensure_clean_router_on_host env ag r s)) =
     RunCmd (agent_host ag) (cmd_list_nic_in_netns (namespace_of r)) #
       (case L of
          Inl e \<Rightarrow> []
        | Inr nics \<Rightarrow>
            if nics = [] then []
            else map (\<lambda>n. RunCmd (agent_host ag) (cmd_delete_ovs_port n (bridge_of n))) nics
                 @ [RunCmd (agent_host ag) (cmd_delete_netns (namespace_of r))])"
    unfolding L_def by (rule new_events_append) (simp add: ensure_clean_trace)
  show "RunCmd h (cmd_delete_ovs_port ''lo'' br)
     \<notin> set (new_events s (snd (ensure_clean_router_on_host env ag r s)))"
  proof (cases L)
    case (Inl e)
    then show ?thesis unfolding ev using ne ne[symmetric] by simp
  next
    case (Inr nics)
    then have "''lo'' \<notin> set nics" unfolding L_def by (rule list_nics_no_lo)
    then show ?thesis unfolding ev Inr using ne ne[symmetric] by (auto simp: inj)
  qed
qed

theorem loopback_never_listed_nor_deleted_witness:
  "fst (list_nics_in_netns_on_remote (const_runner 0 (''lo'' @ [newline] @ ''qr-abc'') [])
          ''h1'' ''qrouter-r1'' s0) = Inr [''qr-abc''] \<and> ''lo'' \<notin> set [''qr-abc''] \<and>
   remote_exec (const_runner 0 ''lo'' []) (agent_host (ex_agent ''a1'' 0))
       (cmd_list_nic_in_netns (namespace_of (ex_router ''r1''))) (world s0) = ((0, ''lo'', []), ()) \<and>
   fst (ensure_clean_router_on_host (const_runner 0 ''lo'' []) (ex_agent ''a1'' 0)
         (ex_router ''r1'') s0) = Inr True \<and>
   new_events s0 (snd (ensure_clean_router_on_host (const_runner 0 ''lo'' []) (ex_agent ''a1'' 0)
         (ex_router ''r1'') s0))
     = [RunCmd ''host-a1'' [''ip'', ''netns'', ''exec'', ''qrouter-r1'', ''ls'', ''-1'', ''/sys/class/net/'']]"
proof -
  have l1: "fst (list_nics_in_netns_on_remote (const_runner 0 (''lo'' @ [newline] @ ''qr-abc'') [])
          ''h1'' ''qrouter-r1'' s0) = Inr [''qr-abc'']"
    by (simp add: list_nics_const_runner newline_def)
  have r: "remote_exec (const_runner 0 ''lo'' []) (agent_host (ex_agent ''a1'' 0))
       (cmd_list_nic_in_netns (namespace_of (ex_router ''r1''))) (world s0) = ((0, ''lo'', []), ())"
    by (simp add: const_runner_def)
  have c: "cmd_list_nic_in_netns (namespace_of (ex_router ''r1''))
      = [''ip'', ''netns'', ''exec'', ''qrouter-r1'', ''ls'', ''-1'', ''/sys/class/net/'']"
    by (simp add: cmd_list_nic_in_netns_def namespace_of_def ex_router_def)
  have h: "agent_host (ex_agent ''a1'' 0) = ''host-a1''" by (simp add: ex_agent_def)
  note a = loopback_never_listed_nor_deleted[where env = "const_runner 0 (''lo'' @ [newline] @ ''qr-abc'') []"
      and host = "''h1''" and netns = "''qrouter-r1''" and s = s0 and nics = "[''qr-abc'']"]
  note b = loopback_never_listed_nor_deleted[where env = "const_runner 0 ''lo'' []"
      and ag = "ex_agent ''a1'' 0" and r = "ex_router ''r1''" and s = s0 and err = "[]" and w' = "()"]
  from a l1 have n: "''lo'' \<notin> set [''qr-abc'']" by blast
  from b r have e: "fst (ensure_clean_router_on_host (const_runner 0 ''lo'' []) (ex_agent ''a1'' 0)
         (ex_router ''r1'') s0) = Inr True \<and>
      new_events s0 (snd (ensure_clean_router_on_host (const_runner 0 ''lo'' []) (ex_agent ''a1'' 0)
         (ex_router ''r1'') s0))
      = [RunCmd (agent_host (ex_agent ''a1'' 0)) (cmd_list_nic_in_netns (namespace_of (ex_router ''r1'')))]"
    by blast
  show ?thesis using l1 n r e unfolding c h by blast
qed

section \<open>Properties of the migration engine\<close>

lemma extends_refl: "extends Q s s"
  by (simp add: extends_def)

lemma extends_trans: "extends Q s s' \<Longrightarrow> extends Q s' s'' \<Longrightarrow> extends Q s s''"
  by (auto simp: extends_def)

lemma extends_mono: "extends Q s s' \<Longrightarrow> (\<And>e. Q e \<Longrightarrow> Q' e) \<Longrightarrow> extends Q' s s'"
  by (auto simp: extends_def list_all_iff)

lemma extends_world: "extends Q s (s\<lparr>world := w\<rparr>)"
  by (simp add: extends_def)

lemma extends_same_trace: "trace s' = trace s \<Longrightarrow> extends Q s s'"
  by (simp add: extends_def)

lemma extends_False: "extends (\<lambda>e. False) s s' \<longleftrightarrow> trace s' = trace s"
  by (auto simp: extends_def list_all_iff)

lemma wait_loop_extends:
  assumes f: "\<And>t r t'. func t = (r, t') \<Longrightarrow> extends Q t t'"
    and w: "wait_loop func timeout interval least wait_time s = Some y"
  shows "extends Q s (snd y)"
  using w
proof (rule wait_loop.raw_induct[rotated, where
      P = "\<lambda>fn tmo itv lst wt s y. fn = func \<longrightarrow> extends Q s (snd y)", rule_format], goal_cases)
  case (1 wl fn timeout interval least wait_time s y)
  note IH = 1(1) and step = 1(2) and fn = 1(3)
  show ?case
  proof (cases "wait_time < least \<or> wait_time \<le> timeout")
    case False
    with step show ?thesis by (auto simp: extends_refl)
  next
    case True
    obtain r t' where ft: "func s = (r, t')" by (cases "func s")
    then have e: "extends Q s t'" by (rule f)
    show ?thesis
    proof (cases r)
      case (Inl x)
      with step True ft e fn show ?thesis by auto
    next
      case (Inr ok)
      show ?thesis
      proof (cases ok)
        case True
        with step \<open>wait_time < least \<or> wait_time \<le> timeout\<close> ft Inr e fn show ?thesis by auto
      next
        case False
        with step \<open>wait_time < least \<or> wait_time \<le> timeout\<close> ft Inr fn
        have "wl fn timeout interval least (wait_time + interval) t' = Some y" by simp
        from IH[OF this fn] have "extends Q t' (snd y)" .
        with e show ?thesis by (rule extends_trans)
      qed
    qed
  qed
qed simp

lemma wait_loop_terminates:
  assumes "0 < interval"
  shows "\<exists>y. wait_loop func timeout interval least wait_time s = Some y"
proof (induction "nat (max least (timeout + 1) - wait_time)" arbitrary: wait_time s rule: less_induct)
  case less
  show ?case
  proof (cases "wait_time < least \<or> wait_time \<le> timeout")
    case False
    then show ?thesis by (subst wait_loop.simps) simp
  next
    case True
    obtain r t' where ft: "func s = (r, t')" by (cases "func s")
    show ?thesis
    proof (cases r)
      case (Inl x)
      with True ft show ?thesis by (subst wait_loop.simps) simp
    next
      case (Inr ok)
      show ?thesis
      proof (cases ok)
        case True
        with \<open>wait_time < least \<or> wait_time \<le> timeout\<close> ft Inr show ?thesis
          by (subst wait_loop.simps) simp
      next
        case False
        have "nat (max least (timeout + 1) - (wait_time + interval))
            < nat (max least (timeout + 1) - wait_time)"
          using assms \<open>wait_time < least \<or> wait_time \<le> timeout\<close> by auto
        from less[OF this, of t'] obtain y where
          "wait_loop func timeout interval least (wait_time + interval) t' = Some y" by blast
        with False \<open>wait_time < least \<or> wait_time \<le> timeout\<close> ft Inr show ?thesis
          by (subst wait_loop.simps) simp
      qed
    qed
  qed
qed

lemma wait_until_extends:
  assumes "\<And>t r t'. func t = (r, t') \<Longrightarrow> extends Q t t'"
    and "wait_until func timeout interval least s = Some (res, s')"
  shows "extends Q s s'"
proof -
  from assms(2) obtain y where y: "wait_loop func timeout interval least 0 s = Some y" "snd y = s'"
    by (auto simp: wait_until_def split: option.splits prod.splits sum.splits if_splits)
  from wait_loop_extends[OF assms(1) y(1)] y(2) show ?thesis by simp
qed

lemma wait_until_terminates:
  "0 < interval \<Longrightarrow> \<exists>y. wait_until func timeout interval least s = Some y"
  using wait_loop_terminates[of interval func timeout least 0 s]
  by (auto simp: wait_until_def split: option.splits prod.splits sum.splits)

lemma check_api_removed_trace: "trace (snd (check_api_removed env ag r s)) = trace s"
  by (simp add: check_api_removed_def split: prod.splits sum.splits)

lemma check_api_added_trace: "trace (snd (check_api_added env ag r s)) = trace s"
  by (simp add: check_api_added_def split: prod.splits sum.splits)

lemma extra_timeout_trace: "trace (snd (extra_timeout_for_router env r s)) = trace s"
  by (simp add: extra_timeout_for_router_def split: prod.splits sum.splits)

lemma RemoteRunner_run_extends: "extends is_RunCmd s (snd (RemoteRunner_run env host cmd s))"
  by (simp add: extends_def RemoteRunner_run_trace)

lemma list_nics_extends: "extends is_RunCmd s (snd (list_nics_in_netns_on_remote env host netns s))"
  by (simp add: extends_def list_nics_trace)

lemma verify_router_snat_rule_extends:
  "extends is_RunCmd s (snd (verify_router_snat_rule env ag r s))"
  using RemoteRunner_run_extends[of s env "agent_host ag"
      "cmd_grep_snat_rule_in_netns (namespace_of r) ''neutron-l3-agent-snat''"]
  by (auto simp: verify_router_snat_rule_def split: prod.splits)

lemma verify_ipforward_extends:
  "extends is_RunCmd s (snd (verify_ipforward_on_host env ag r s))"
  using RemoteRunner_run_extends[of s env "agent_host ag" "cmd_show_ipforward_in_netns (namespace_of r)"]
  by (auto simp: verify_ipforward_on_host_def split: prod.splits)

lemma verify_ports_extends:
  "extends is_RunCmd s (snd (verify_ports_on_host env ag r s))"
proof (cases "list_ports env (router_id r) True (world s)")
  case (Pair res w')
  show ?thesis
  proof (cases res)
    case (Inl e)
    with Pair show ?thesis by (simp add: verify_ports_on_host_def extends_world)
  next
    case (Inr ports)
    show ?thesis
    proof (cases "length ports = 0")
      case True
      with Pair Inr show ?thesis by (simp add: verify_ports_on_host_def extends_world)
    next
      case False
      have "extends is_RunCmd (s\<lparr>world := w'\<rparr>)
          (snd (list_nics_in_netns_on_remote env (agent_host ag) (namespace_of r) (s\<lparr>world := w'\<rparr>)))"
        by (rule list_nics_extends)
      with extends_world[of is_RunCmd s w']
      have "extends is_RunCmd s
          (snd (list_nics_in_netns_on_remote env (agent_host ag) (namespace_of r) (s\<lparr>world := w'\<rparr>)))"
        by (rule extends_trans)
      with Pair Inr False show ?thesis
        by (auto simp: verify_ports_on_host_def split: prod.splits sum.splits)
    qed
  qed
qed

lemma verify_router_on_host_extends:
  "extends is_RunCmd s (snd (verify_router_on_host env ag r s))"
proof (cases "verify_ports_on_host env ag r s")
  case (Pair res s1)
  then have e1: "extends is_RunCmd s s1" using verify_ports_extends[of s env ag r] by simp
  have e2: "extends is_RunCmd s (snd (verify_ipforward_on_host env ag r s1))"
    using e1 verify_ipforward_extends[of s1 env ag r] by (rule extends_trans)
  show ?thesis
    using Pair e1 e2 by (cases res) (auto simp: verify_router_on_host_def split: prod.splits)
qed

lemma ensure_clean_extends:
  "extends is_RunCmd s (snd (ensure_clean_router_on_host env ag r s))"
  unfolding extends_def
  by (rule exI, rule conjI, rule ensure_clean_trace)
     (simp add: list_all_iff split: sum.splits, auto)

lemma ensure_router_cleaned_extends:
  "extends is_RunCmd s (snd (ensure_router_cleaned env ag r s))"
  using ensure_clean_extends[of s env ag r]
  by (auto simp: ensure_router_cleaned_def split: prod.splits sum.splits)

lemma remove_try_terminates:
  assumes "0 < wait_interval self"
  shows "\<exists>y. remove_try env self ag r s = Some y"
proof -
  define s1 where "s1 = s\<lparr>trace := trace s @ [RemoveRouter (agent_id ag) (router_id r)]\<rparr>"
  obtain res w' where c: "remove_router_from_l3_agent env (agent_id ag) (router_id r) (world s1) = (res, w')"
    by (cases "remove_router_from_l3_agent env (agent_id ag) (router_id r) (world s1)")
  from wait_until_terminates[OF assms] obtain y where
    "wait_until (check_api_removed env ag r) (wait_timeout self) (wait_interval self)
                  (least_wait_time self) (s1\<lparr>world := w'\<rparr>) = Some y" by blast
  with c show ?thesis
    by (cases res; cases y; cases "fst y")
       (simp_all add: remove_try_def Let_def s1_def)
qed

lemma add_try_terminates:
  assumes "0 < wait_interval self"
  shows "\<exists>y. add_try env self ag r s = Some y"
proof -
  define s1 where "s1 = s\<lparr>trace := trace s @ [AddRouter (agent_id ag) (router_id r)]\<rparr>"
  obtain res w' where c: "add_router_to_l3_agent env (agent_id ag) (router_id r) (world s1) = (res, w')"
    by (cases "add_router_to_l3_agent env (agent_id ag) (router_id r) (world s1)")
  from wait_until_terminates[OF assms] obtain y where
    "wait_until (check_api_added env ag r) (wait_timeout self) (wait_interval self)
                  (least_wait_time self) (s1\<lparr>world := w'\<rparr>) = Some y" by blast
  with c show ?thesis
    by (cases res; cases y; cases "fst y")
       (simp_all add: add_try_def Let_def s1_def)
qed

lemmas remove_router_simps = remove_router.simps

lemmas add_router_simps = add_router.simps

declare remove_router.simps [simp del] add_router.simps [simp del]

lemma wait_until_same_trace:
  assumes "\<And>t. trace (snd (func t)) = trace t"
    and "wait_until func timeout interval least s = Some (res, s')"
  shows "trace s' = trace s"
proof -
  have "extends (\<lambda>e. False) s s'"
  proof (rule wait_until_extends[OF _ assms(2)])
    fix t r t' assume "func t = (r, t')"
    with assms(1)[of t] show "extends (\<lambda>e. False) t t'" by (simp add: extends_same_trace)
  qed
  then show ?thesis by (simp add: extends_False)
qed

lemma remove_try_trace:
  assumes "remove_try env self ag r s = Some (out, s')"
  shows "trace s' = trace s @ [RemoveRouter (agent_id ag) (router_id r)]"
proof -
  define s1 where "s1 = s\<lparr>trace := trace s @ [RemoveRouter (agent_id ag) (router_id r)]\<rparr>"
  obtain res w' where c: "remove_router_from_l3_agent env (agent_id ag) (router_id r) (world s1) = (res, w')"
    by (cases "remove_router_from_l3_agent env (agent_id ag) (router_id r) (world s1)")
  show ?thesis
  proof (cases res)
    case (Inl e)
    with assms c show ?thesis by (auto simp: remove_try_def Let_def s1_def)
  next
    case (Inr u)
    with assms c obtain r2 where
      w: "wait_until (check_api_removed env ag r) (wait_timeout self) (wait_interval self)
                  (least_wait_time self) (s1\<lparr>world := w'\<rparr>) = Some (r2, s')"
      by (auto simp: remove_try_def Let_def s1_def split: option.splits sum.splits)
    have "trace s' = trace (s1\<lparr>world := w'\<rparr>)"
      by (rule wait_until_same_trace[OF _ w]) (rule check_api_removed_trace)
    then show ?thesis by (simp add: s1_def)
  qed
qed

lemma add_try_trace:
  assumes "add_try env self ag r s = Some (out, s')"
  shows "trace s' = trace s @ [AddRouter (agent_id ag) (router_id r)]"
proof -
  define s1 where "s1 = s\<lparr>trace := trace s @ [AddRouter (agent_id ag) (router_id r)]\<rparr>"
  obtain res w' where c: "add_router_to_l3_agent env (agent_id ag) (router_id r) (world s1) = (res, w')"
    by (cases "add_router_to_l3_agent env (agent_id ag) (router_id r) (world s1)")
  show ?thesis
  proof (cases res)
    case (Inl e)
    with assms c show ?thesis by (auto simp: add_try_def Let_def s1_def)
  next
    case (Inr u)
    with assms c obtain r2 where
      w: "wait_until (check_api_added env ag r) (wait_timeout self) (wait_interval self)
                  (least_wait_time self) (s1\<lparr>world := w'\<rparr>) = Some (r2, s')"
      by (auto simp: add_try_def Let_def s1_def split: option.splits sum.splits)
    have "trace s' = trace (s1\<lparr>world := w'\<rparr>)"
      by (rule wait_until_same_trace[OF _ w]) (rule check_api_added_trace)
    then show ?thesis by (simp add: s1_def)
  qed
qed

lemma remove_router_trace:
  "remove_router env self ag r n s = Some (b, s') \<Longrightarrow>
   \<exists>k. 1 \<le> k \<and> k \<le> nat n + 1 \<and>
       trace s' = trace s @ replicate k (RemoveRouter (agent_id ag) (router_id r))"
proof (induction env self ag r n s rule: remove_router.induct)
  case (1 env self ag r n s)
  from "1.prems" obtain out s1 where t: "remove_try env self ag r s = Some (out, s1)"
    by (subst (asm) remove_router_simps) (auto split: option.splits)
  then have e1: "trace s1 = trace s @ [RemoveRouter (agent_id ag) (router_id r)]"
    by (rule remove_try_trace)
  show ?case
  proof (cases "need_retry out \<and> n > 0")
    case True
    with "1.prems" t have "remove_router env self ag r (n - 1) s1 = Some (b, s')"
      by (subst (asm) remove_router_simps) simp
    with "1.IH"[OF t refl] True obtain k where
      k: "1 \<le> k" "k \<le> nat (n - 1) + 1"
         "trace s' = trace s1 @ replicate k (RemoveRouter (agent_id ag) (router_id r))"
      by auto
    have "trace s' = trace s @ replicate (Suc k) (RemoveRouter (agent_id ag) (router_id r))"
      using k(3) e1 by simp
    moreover have "Suc k \<le> nat n + 1" using k(2) True by auto
    ultimately show ?thesis by (intro exI[of _ "Suc k"]) simp
  next
    case False
    with "1.prems" t have "s' = s1"
      by (subst (asm) remove_router_simps) (auto split: if_splits)
    with e1 show ?thesis by (intro exI[of _ 1]) simp
  qed
qed

lemma add_router_trace:
  "add_router env self ag r n s = Some (b, s') \<Longrightarrow>
   \<exists>k. 1 \<le> k \<and> k \<le> nat n + 1 \<and>
       trace s' = trace s @ replicate k (AddRouter (agent_id ag) (router_id r))"
proof (induction env self ag r n s rule: add_router.induct)
  case (1 env self ag r n s)
  from "1.prems" obtain out s1 where t: "add_try env self ag r s = Some (out, s1)"
    by (subst (asm) add_router_simps) (auto split: option.splits)
  then have e1: "trace s1 = trace s @ [AddRouter (agent_id ag) (router_id r)]"
    by (rule add_try_trace)
  show ?case
  proof (cases "need_retry out \<and> n > 0")
    case True
    with "1.prems" t have "add_router env self ag r (n - 1) s1 = Some (b, s')"
      by (subst (asm) add_router_simps) simp
    with "1.IH"[OF t refl] True obtain k where
      k: "1 \<le> k" "k \<le> nat (n - 1) + 1"
         "trace s' = trace s1 @ replicate k (AddRouter (agent_id ag) (router_id r))"
      by auto
    have "trace s' = trace s @ replicate (Suc k) (AddRouter (agent_id ag) (router_id r))"
      using k(3) e1 by simp
    moreover have "Suc k \<le> nat n + 1" using k(2) True by auto
    ultimately show ?thesis by (intro exI[of _ "Suc k"]) simp
  next
    case False
    with "1.prems" t have "s' = s1"
      by (subst (asm) add_router_simps) (auto split: if_splits)
    with e1 show ?thesis by (intro exI[of _ 1]) simp
  qed
qed

lemma remove_router_terminates:
  "0 < wait_interval self \<Longrightarrow> \<exists>y. remove_router env self ag r n s = Some y"
proof (induction env self ag r n s rule: remove_router.induct)
  case (1 env self ag r n s)
  from remove_try_terminates[OF "1.prems"] obtain out s1 where
    t: "remove_try env self ag r s = Some (out, s1)" by (metis prod.exhaust)
  show ?case
  proof (cases "need_retry out \<and> n > 0")
    case True
    with "1.IH"[OF t refl _ _ "1.prems"] obtain y where
      "remove_router env self ag r (n - 1) s1 = Some y" by auto
    with t True show ?thesis by (subst remove_router_simps) simp
  next
    case False
    with t show ?thesis by (subst remove_router_simps) auto
  qed
qed

lemma add_router_terminates:
  "0 < wait_interval self \<Longrightarrow> \<exists>y. add_router env self ag r n s = Some y"
proof (induction env self ag r n s rule: add_router.induct)
  case (1 env self ag r n s)
  from add_try_terminates[OF "1.prems"] obtain out s1 where
    t: "add_try env self ag r s = Some (out, s1)" by (metis prod.exhaust)
  show ?case
  proof (cases "need_retry out \<and> n > 0")
    case True
    with "1.IH"[OF t refl _ _ "1.prems"] obtain y where
      "add_router env self ag r (n - 1) s1 = Some y" by auto
    with t True show ?thesis by (subst add_router_simps) simp
  next
    case False
    with t show ?thesis by (subst add_router_simps) auto
  qed
qed

lemma remove_router_outcomes:
  "try_outcomes (remove_try env self ag r) (Suc (nat n)) s = Some outs \<Longrightarrow>
   \<exists>s'. remove_router env self ag r n s = Some (\<exists>out\<in>set outs. \<not> need_retry out, s')"
proof (induction env self ag r n s arbitrary: outs rule: remove_router.induct)
  case (1 env self ag r n s)
  from "1.prems" obtain out s1 outs' where
    t: "remove_try env self ag r s = Some (out, s1)" and
    o: "try_outcomes (remove_try env self ag r) (nat n) s1 = Some outs'" and
    outs: "outs = out # outs'"
    by (auto split: option.splits)
  show ?case
  proof (cases "need_retry out")
    case False
    with t outs show ?thesis by (subst remove_router_simps) auto
  next
    case nr: True
    show ?thesis
    proof (cases "n > 0")
      case True
      then have "nat n = Suc (nat (n - 1))" by simp
      with o have "try_outcomes (remove_try env self ag r) (Suc (nat (n - 1))) s1 = Some outs'"
        by simp
      from "1.IH"[OF t refl _ True this] nr obtain s' where
        "remove_router env self ag r (n - 1) s1 = Some (\<exists>out\<in>set outs'. \<not> need_retry out, s')"
        by auto
      with t nr True outs show ?thesis by (subst remove_router_simps) simp
    next
      case False
      then have "nat n = 0" by simp
      with o have "outs' = []" by simp
      with t nr False outs show ?thesis by (subst remove_router_simps) simp
    qed
  qed
qed

lemma snat_rule_extends:
  "verify_router_snat_rule env ag r t = (res, t') \<Longrightarrow> extends is_RunCmd t t'"
  using verify_router_snat_rule_extends[of t env ag r] by simp

lemma verify_router_extends:
  "verify_router_on_host env ag r t = (res, t') \<Longrightarrow> extends is_RunCmd t t'"
  using verify_router_on_host_extends[of t env ag r] by simp

lemma ensure_router_added_extends:
  assumes "ensure_router_added env self ag r s = Some (b, s')"
  shows "extends is_RunCmd s s'"
proof -
  from assms obtain r1 s1 where
    w1: "wait_until (verify_router_snat_rule env ag r) 15 1 1 s = Some (r1, s1)"
    by (cases "wait_until (verify_router_snat_rule env ag r) 15 1 1 s")
       (auto simp: ensure_router_added_def)
  have e1: "extends is_RunCmd s s1"
    by (rule wait_until_extends[OF _ w1]) (rule snat_rule_extends)
  obtain r2 s2 where v: "verify_router_on_host env ag r s1 = (r2, s2)"
    by (cases "verify_router_on_host env ag r s1")
  have e2: "extends is_RunCmd s s2"
    using e1 verify_router_extends[OF v] by (rule extends_trans)
  obtain r3 s3 where x: "extra_timeout_for_router env r s2 = (r3, s3)"
    by (cases "extra_timeout_for_router env r s2")
  have "trace s3 = trace s2" using extra_timeout_trace[of env r s2] x by simp
  then have e3: "extends is_RunCmd s s3"
    using e2 extends_same_trace[of s3 s2 is_RunCmd] by (auto intro: extends_trans)
  show ?thesis
  proof (cases r1)
    case (Inl e)
    with assms w1 e1 show ?thesis by (simp add: ensure_router_added_def)
  next
    case found: (Inr found)
    show ?thesis
    proof (cases r2)
      case (Inl e)
      with assms w1 found v e2 show ?thesis by (simp add: ensure_router_added_def)
    next
      case verified: (Inr verified)
      show ?thesis
      proof (cases verified)
        case True
        with assms w1 found v verified e2 show ?thesis by (simp add: ensure_router_added_def)
      next
        case False
        show ?thesis
        proof (cases r3)
          case (Inl e)
          with assms w1 found v verified False x e3 show ?thesis
            by (simp add: ensure_router_added_def)
        next
          case (Inr extra_timeout)
          with assms w1 found v verified False x obtain r4 where
            w2: "wait_until (verify_router_on_host env ag r) extra_timeout 1 1 s3 = Some (r4, s')"
            by (cases "wait_until (verify_router_on_host env ag r) extra_timeout 1 1 s3")
               (auto simp: ensure_router_added_def split: sum.splits if_splits)
          have "extends is_RunCmd s3 s'"
            by (rule wait_until_extends[OF _ w2]) (rule verify_router_extends)
          with e3 show ?thesis by (rule extends_trans)
        qed
      qed
    qed
  qed
qed

lemma ensure_router_added_terminates:
  "\<exists>y. ensure_router_added env self ag r s = Some y"
proof -
  obtain r1 s1 where
    w1: "wait_until (verify_router_snat_rule env ag r) 15 1 1 s = Some (r1, s1)"
    using wait_until_terminates[of 1 "verify_router_snat_rule env ag r" 15 1 s]
    by (metis prod.exhaust zero_less_one)
  obtain r2 s2 where v: "verify_router_on_host env ag r s1 = (r2, s2)"
    by (cases "verify_router_on_host env ag r s1")
  obtain r3 s3 where x: "extra_timeout_for_router env r s2 = (r3, s3)"
    by (cases "extra_timeout_for_router env r s2")
  have w2: "\<exists>r4 s4. wait_until (verify_router_on_host env ag r) t 1 1 s3 = Some (r4, s4)" for t
    using wait_until_terminates[of 1 "verify_router_on_host env ag r" t 1 s3]
    by (metis prod.exhaust zero_less_one)
  show ?thesis
  proof (cases r1)
    case (Inl e)
    with w1 show ?thesis by (auto simp: ensure_router_added_def)
  next
    case found: (Inr found)
    show ?thesis
    proof (cases r2)
      case (Inl e)
      with w1 found v show ?thesis by (auto simp: ensure_router_added_def)
    next
      case verified: (Inr verified)
      show ?thesis
      proof (cases r3)
        case (Inl e)
        with w1 found v verified x show ?thesis by (auto simp: ensure_router_added_def)
      next
        case (Inr extra_timeout)
        from w2[of extra_timeout] obtain r4 s4 where
          "wait_until (verify_router_on_host env ag r) extra_timeout 1 1 s3 = Some (r4, s4)"
          by blast
        with w1 found v verified x Inr show ?thesis
          by (cases r4) (auto simp: ensure_router_added_def)
      qed
    qed
  qed
qed

text \<open>An exception raised while the destination is verified makes the result true.\<close>

lemma ensure_router_added_exception:
  assumes "wait_until (verify_router_snat_rule env ag r) 15 1 1 s = Some (Inr found, s1)"
    and "verify_router_on_host env ag r s1 = (Inl e, s2)"
  shows "ensure_router_added env self ag r s = Some (True, s2)"
  using assms by (simp add: ensure_router_added_def)

lemmas retry_failed_router_simps = retry_failed_router.simps

declare retry_failed_router.simps [simp del]

lemma is_RunCmd_not_AddRouter: "is_RunCmd e \<Longrightarrow> \<not> is_AddRouter e"
  by (cases e) simp_all

lemma extends_RunCmd_no_adds:
  assumes "extends is_RunCmd s s'"
  shows "\<exists>evs. trace s' = trace s @ evs \<and> list_all (\<lambda>e. is_RunCmd e \<or> e = x) evs \<and>
           filter is_AddRouter evs = []"
proof -
  from assms obtain evs where e: "trace s' = trace s @ evs" "list_all is_RunCmd evs"
    by (auto simp: extends_def)
  from e(2) have "list_all (\<lambda>e. is_RunCmd e \<or> e = x) evs" "filter is_AddRouter evs = []"
    by (auto simp: list_all_iff filter_empty_conv is_RunCmd_not_AddRouter)
  with e(1) show ?thesis by blast
qed

lemma retry_failed_router_trace:
  "retry_failed_router env self r src n s = Some (res, s') \<Longrightarrow>
   \<exists>evs. trace s' = trace s @ evs \<and>
     list_all (\<lambda>e. is_RunCmd e \<or> e = AddRouter (agent_id src) (router_id r)) evs \<and>
     length (filter is_AddRouter evs) \<le> nat (n + 1) * (nat (retry self) + 1)"
proof (induction env self r src n s arbitrary: res s' rule: retry_failed_router.induct)
  case (1 env self r src n s)
  let ?Q = "\<lambda>e. is_RunCmd e \<or> e = AddRouter (agent_id src) (router_id r)"
  show ?case
  proof (cases "n < 0")
    case True
    with "1.prems" have "s' = s" by (subst (asm) retry_failed_router_simps) simp
    then show ?thesis by simp
  next
    case nn: False
    obtain res0 w' where l: "list_l3_agent_hosting_routers env (router_id r) (world s) = (res0, w')"
      by (cases "list_l3_agent_hosting_routers env (router_id r) (world s)")
    show ?thesis
    proof (cases res0)
      case (Inl e)
      with "1.prems" nn l have "s' = s\<lparr>world := w'\<rparr>"
        by (subst (asm) retry_failed_router_simps) simp
      then show ?thesis by simp
    next
      case (Inr agents)
      show ?thesis
      proof (cases agents)
        case (Cons ag rest)
        from "1.prems" nn l Inr Cons obtain ensured s2 where
          ea: "ensure_router_added env self ag r (s\<lparr>world := w'\<rparr>) = Some (ensured, s2)" and
          s': "s' = s2 \<or> s' = snd (ensure_router_cleaned env src r s2)"
          by (subst (asm) retry_failed_router_simps)
             (auto split: option.splits if_splits)
        have "extends is_RunCmd s (s\<lparr>world := w'\<rparr>)" by (rule extends_world)
        with ensure_router_added_extends[OF ea] have e2: "extends is_RunCmd s s2"
          by (auto intro: extends_trans)
        have "extends is_RunCmd s s'"
          using s' e2 ensure_router_cleaned_extends[of s2 env src r]
          by (auto intro: extends_trans)
        from extends_RunCmd_no_adds[OF this, of "AddRouter (agent_id src) (router_id r)"]
        show ?thesis by auto
      next
        case Nil
        from "1.prems" nn l Inr Nil obtain added s2 res3 where
          a: "add_router env self src r (retry self) (s\<lparr>world := w'\<rparr>) = Some (added, s2)" and
          rec: "retry_failed_router env self r src (n - 1) s2 = Some (res3, s')"
          by (subst (asm) retry_failed_router_simps)
             (auto split: option.splits sum.splits)
        from add_router_trace[OF a] obtain k where
          k: "k \<le> nat (retry self) + 1"
             "trace s2 = trace s @ replicate k (AddRouter (agent_id src) (router_id r))"
          by auto
        from "1.IH"[OF nn l[symmetric] Inr Nil a refl rec] obtain evs where
          evs: "trace s' = trace s2 @ evs" "list_all ?Q evs"
               "length (filter is_AddRouter evs) \<le> nat (n - 1 + 1) * (nat (retry self) + 1)"
          by blast
        let ?all = "replicate k (AddRouter (agent_id src) (router_id r)) @ evs"
        have t: "trace s' = trace s @ ?all" using k(2) evs(1) by simp
        have q: "list_all ?Q ?all" using evs(2) by (auto simp: list_all_iff)
        have "length (filter is_AddRouter ?all) \<le> k + length (filter is_AddRouter evs)"
          by simp
        also have "\<dots> \<le> (nat (retry self) + 1) + nat n * (nat (retry self) + 1)"
          using k(1) evs(3) by simp
        also have "\<dots> = nat (n + 1) * (nat (retry self) + 1)"
          using nn by (simp add: nat_add_distrib)
        finally have "length (filter is_AddRouter ?all) \<le> nat (n + 1) * (nat (retry self) + 1)" .
        with t q show ?thesis by blast
      qed
    qed
  qed
qed

lemma retry_failed_router_terminates:
  "0 < wait_interval self \<Longrightarrow> \<exists>y. retry_failed_router env self r src n s = Some y"
proof (induction env self r src n s rule: retry_failed_router.induct)
  case (1 env self r src n s)
  show ?case
  proof (cases "n < 0")
    case True
    then show ?thesis by (subst retry_failed_router_simps) simp
  next
    case nn: False
    obtain res0 w' where l: "list_l3_agent_hosting_routers env (router_id r) (world s) = (res0, w')"
      by (cases "list_l3_agent_hosting_routers env (router_id r) (world s)")
    show ?thesis
    proof (cases res0)
      case (Inl e)
      with nn l show ?thesis by (subst retry_failed_router_simps) simp
    next
      case (Inr agents)
      show ?thesis
      proof (cases agents)
        case (Cons ag rest)
        from ensure_router_added_terminates[of env self ag r "s\<lparr>world := w'\<rparr>"]
        obtain ensured s2 where
          "ensure_router_added env self ag r (s\<lparr>world := w'\<rparr>) = Some (ensured, s2)"
          by (metis prod.exhaust)
        with nn l Inr Cons show ?thesis by (subst retry_failed_router_simps) simp
      next
        case Nil
        from add_router_terminates[OF "1.prems", of env src r "retry self" "s\<lparr>world := w'\<rparr>"]
        obtain added s2 where
          a: "add_router env self src r (retry self) (s\<lparr>world := w'\<rparr>) = Some (added, s2)"
          by (metis prod.exhaust)
        from "1.IH"[OF nn l[symmetric] Inr Nil a refl "1.prems"] obtain res3 s3 where
          "retry_failed_router env self r src (n - 1) s2 = Some (res3, s3)"
          by (metis prod.exhaust)
        with nn l Inr Nil a show ?thesis
          by (subst retry_failed_router_simps) (cases res3; simp)
      qed
    qed
  qed
qed

lemma retry_failed_router_unfold:
  assumes "0 \<le> n" and "list_l3_agent_hosting_routers env (router_id r) (world s) = (Inr [], w')"
  shows "retry_failed_router env self r src n s =
     (case add_router env self src r (retry self) (s\<lparr>world := w'\<rparr>) of
        None \<Rightarrow> None
      | Some (added, s2) \<Rightarrow>
          (case retry_failed_router env self r src (n - 1) s2 of
             None \<Rightarrow> None
           | Some (Inl e, s3) \<Rightarrow> Some (Inl e, s3)
           | Some (Inr v, s3) \<Rightarrow> Some (Inr RetNone, s3)))"
  using assms by (subst retry_failed_router_simps) simp

lemma retry_failed_router_first_event:
  assumes "0 \<le> n" and "list_l3_agent_hosting_routers env (router_id r) (world s) = (Inr [], w')"
    and "retry_failed_router env self r src n s = Some (res, s')"
  shows "take 1 (new_events s s') = [AddRouter (agent_id src) (router_id r)]"
proof -
  from assms(3) obtain added s2 res3 where
    a: "add_router env self src r (retry self) (s\<lparr>world := w'\<rparr>) = Some (added, s2)" and
    rec: "retry_failed_router env self r src (n - 1) s2 = Some (res3, s')"
    unfolding retry_failed_router_unfold[OF assms(1,2)]
    by (auto split: option.splits sum.splits)
  from add_router_trace[OF a] obtain k where
    k: "1 \<le> k" "trace s2 = trace s @ replicate k (AddRouter (agent_id src) (router_id r))"
    by auto
  from retry_failed_router_trace[OF rec] obtain evs where "trace s' = trace s2 @ evs" by blast
  with k(2) have "new_events s s' = replicate k (AddRouter (agent_id src) (router_id r)) @ evs"
    by (intro new_events_append) simp
  with k(1) show ?thesis by (cases k) simp_all
qed

lemma wait_loop_exit:
  "\<not> (wait_time < least \<or> wait_time \<le> timeout) \<Longrightarrow>
   wait_loop func timeout interval least wait_time s = Some (Inr wait_time, s)"
  by (subst wait_loop.simps) simp

lemma wait_loop_ok:
  "wait_time < least \<or> wait_time \<le> timeout \<Longrightarrow> func s = (Inr True, s') \<Longrightarrow>
   wait_loop func timeout interval least wait_time s = Some (Inr wait_time, s')"
  by (subst wait_loop.simps) simp

lemma wait_loop_raise:
  "wait_time < least \<or> wait_time \<le> timeout \<Longrightarrow> func s = (Inl e, s') \<Longrightarrow>
   wait_loop func timeout interval least wait_time s = Some (Inl e, s')"
  by (subst wait_loop.simps) simp

lemma wait_loop_again:
  "wait_time < least \<or> wait_time \<le> timeout \<Longrightarrow> func s = (Inr False, s') \<Longrightarrow>
   wait_loop func timeout interval least wait_time s =
   wait_loop func timeout interval least (wait_time + interval) s'"
  by (subst wait_loop.simps) simp

lemmas wait_loop_eval = wait_loop_exit wait_loop_ok wait_loop_raise wait_loop_again

lemma unreachable_snat:
  "verify_router_snat_rule unreachable_env ag r s =
     (Inr False, \<lparr>world = (), trace = trace s @ [RunCmd (agent_host ag)
        (cmd_grep_snat_rule_in_netns (namespace_of r) ''neutron-l3-agent-snat'')]\<rparr>)"
  by (simp add: verify_router_snat_rule_def RemoteRunner_run_def unreachable_env_def const_runner_def)

lemma unreachable_verify:
  "\<exists>e. verify_router_on_host unreachable_env ag r s =
     (Inl e, \<lparr>world = (), trace = trace s @ [RunCmd (agent_host ag)
        (cmd_list_nic_in_netns (namespace_of r))]\<rparr>)"
  by (simp add: verify_router_on_host_def verify_ports_on_host_def list_nics_in_netns_on_remote_def
      RemoteRunner_run_def unreachable_env_def const_runner_def)

text \<open>
  Claim C1. The destination host cannot be reached and the router has an enabled port:
  the interface listing inside \<^verbatim>\<open>_verify_router_on_host\<close> raises, and
  \<^verbatim>\<open>_ensure_router_added\<close> reports the router as verified.
\<close>

theorem ensure_router_added_masks_failure:
  "(\<exists>e. fst (verify_router_on_host unreachable_env (ex_agent ''a1'' 0) (ex_router ''r1'') s0) = Inl e) \<and>
   map_option fst (ensure_router_added unreachable_env (ex_self 1) (ex_agent ''a1'' 0)
                     (ex_router ''r1'') s0) = Some True"
proof -
  have "\<exists>s1. wait_until (verify_router_snat_rule unreachable_env (ex_agent ''a1'' 0) (ex_router ''r1''))
           15 1 1 s0 = Some (Inr False, s1)"
    by (simp add: wait_until_def wait_loop_eval unreachable_snat)
  then obtain s1 where w: "wait_until (verify_router_snat_rule unreachable_env (ex_agent ''a1'' 0)
      (ex_router ''r1'')) 15 1 1 s0 = Some (Inr False, s1)" by blast
  from unreachable_verify[of "ex_agent ''a1'' 0" "ex_router ''r1''" s1] obtain e s2 where
    v: "verify_router_on_host unreachable_env (ex_agent ''a1'' 0) (ex_router ''r1'') s1 = (Inl e, s2)"
    by blast
  from ensure_router_added_exception[OF w v]
  have "map_option fst (ensure_router_added unreachable_env (ex_self 1) (ex_agent ''a1'' 0)
                     (ex_router ''r1'') s0) = Some True" by simp
  moreover have "\<exists>e. fst (verify_router_on_host unreachable_env (ex_agent ''a1'' 0) (ex_router ''r1'') s0) = Inl e"
    using unreachable_verify[of "ex_agent ''a1'' 0" "ex_router ''r1''" s0] by auto
  ultimately show ?thesis by blast
qed

lemma extends_any: "extends Q s s' \<Longrightarrow> extends (\<lambda>e. True) s s'"
  by (erule extends_mono) simp

lemma retry_failed_router_extends:
  assumes "retry_failed_router env self r src n s = Some (res, s')"
  shows "extends (\<lambda>e. True) s s'"
  using retry_failed_router_trace[OF assms] by (auto simp: extends_def list_all_iff)

lemma migrate_router_remove_failed:
  assumes "remove_router env self (case src_arg of None \<Rightarrow> self_src_agent self | Some a \<Rightarrow> a) r
             (retry self) s = Some (False, s1)"
  shows "migrate_router env self target r src_arg s = Some (Inr (), s1)"
  using assms by (simp add: migrate_router_def Let_def)

lemma migrate_router_no_ports_eq:
  assumes "remove_router env self (case src_arg of None \<Rightarrow> self_src_agent self | Some a \<Rightarrow> a) r
             (retry self) s = Some (True, s1)"
    and "add_router env self target r (retry self) s1 = Some (added, s2)"
    and "list_ports env (router_id r) True (world s2) = (Inr [], w')"
  shows "migrate_router env self target r src_arg s = Some (Inr (), s2\<lparr>world := w'\<rparr>)"
  using assms by (simp add: migrate_router_def Let_def)

lemma migrate_router_after_add:
  assumes "remove_router env self (case src_arg of None \<Rightarrow> self_src_agent self | Some a \<Rightarrow> a) r
             (retry self) s = Some (True, s1)"
    and "add_router env self target r (retry self) s1 = Some (added, s2)"
    and "0 < wait_interval self"
  shows "\<exists>res s'. migrate_router env self target r src_arg s = Some (res, s') \<and>
           extends (\<lambda>e. True) s2 s'"
proof -
  let ?src = "case src_arg of None \<Rightarrow> self_src_agent self | Some a \<Rightarrow> a"
  obtain res0 w' where l: "list_ports env (router_id r) True (world s2) = (res0, w')"
    by (cases "list_ports env (router_id r) True (world s2)")
  define s3 where "s3 = s2\<lparr>world := w'\<rparr>"
  have e3: "extends (\<lambda>e. True) s2 s3" unfolding s3_def by (rule extends_world)
  note defs = migrate_router_def Let_def assms(1,2) l s3_def[symmetric]
  have rec: "\<exists>res5 s5. retry_failed_router env self r ?src (retry self) t = Some (res5, s5) \<and>
                extends (\<lambda>e. True) t s5" for t
  proof -
    from retry_failed_router_terminates[OF assms(3), of env r ?src "retry self" t]
    obtain res5 s5 where "retry_failed_router env self r ?src (retry self) t = Some (res5, s5)"
      by (metis prod.exhaust)
    with retry_failed_router_extends[OF this] show ?thesis by blast
  qed
  show ?thesis
  proof (cases res0)
    case (Inl e)
    with e3 show ?thesis by (simp add: defs)
  next
    case (Inr ports)
    show ?thesis
    proof (cases "added \<and> length ports > 0")
      case True
      from ensure_router_added_terminates[of env self target r s3] obtain ensure_added s4 where
        ea: "ensure_router_added env self target r s3 = Some (ensure_added, s4)"
        by (metis prod.exhaust)
      have e4: "extends (\<lambda>e. True) s2 s4"
        using e3 extends_any[OF ensure_router_added_extends[OF ea]] by (rule extends_trans)
      show ?thesis
      proof (cases ensure_added)
        case ok: True
        have "extends (\<lambda>e. True) s2 (snd (ensure_router_cleaned env ?src r s4))"
          using e4 extends_any[OF ensure_router_cleaned_extends[of s4 env ?src r]]
          by (rule extends_trans)
        with Inr True ea ok show ?thesis by (simp add: defs)
      next
        case False
        from rec[of s4] obtain res5 s5 where
          r5: "retry_failed_router env self r ?src (retry self) s4 = Some (res5, s5)"
              "extends (\<lambda>e. True) s4 s5" by blast
        from e4 r5(2) have "extends (\<lambda>e. True) s2 s5" by (rule extends_trans)
        with Inr True ea False r5(1) show ?thesis by (cases res5) (simp_all add: defs)
      qed
    next
      case nf: False
      show ?thesis
      proof (cases "length ports = 0")
        case True
        with Inr nf e3 show ?thesis by (simp add: defs)
      next
        case False
        from rec[of s3] obtain res5 s5 where
          r5: "retry_failed_router env self r ?src (retry self) s3 = Some (res5, s5)"
              "extends (\<lambda>e. True) s3 s5" by blast
        from e3 r5(2) have "extends (\<lambda>e. True) s2 s5" by (rule extends_trans)
        with Inr nf False r5(1) show ?thesis by (cases res5) (auto simp: defs)
      qed
    qed
  qed
qed

lemma need_retry_iff: "need_retry out \<longleftrightarrow> out = ApiException \<or> out = PollTimeout"
  by (cases out) simp_all

lemma flaky_remove_try:
  "remove_try flaky_env (ex_self k) ag r s =
     Some (if world s < 1 then ApiException else if world s < 2 then PollTimeout else Confirmed,
           \<lparr>world = Suc (world s), trace = trace s @ [RemoveRouter (agent_id ag) (router_id r)]\<rparr>)"
  by (simp add: remove_try_def Let_def flaky_env_def ex_self_def raised_def wait_until_def
      wait_loop_eval check_api_removed_def)

lemma quiet_remove_try:
  "remove_try (quiet_env as rs) (ex_self k) ag r s =
     Some (Confirmed,
           \<lparr>world = (), trace = trace s @ [RemoveRouter (agent_id ag) (router_id r)]\<rparr>)"
  by (simp add: remove_try_def Let_def quiet_env_def ex_self_def raised_def wait_until_def
      wait_loop_eval check_api_removed_def)

lemma quiet_add_try:
  "add_try (quiet_env as rs) (ex_self k) ag r s =
     Some (PollTimeout,
           \<lparr>world = (), trace = trace s @ [AddRouter (agent_id ag) (router_id r)]\<rparr>)"
  by (simp add: add_try_def Let_def quiet_env_def ex_self_def raised_def wait_until_def
      wait_loop_eval check_api_added_def)

text \<open>
  How one attempt of \<^verbatim>\<open>_remove_router\<close> ends, read off the answers of the control plane.
  A poll that never sees the router released ends with the clock past the timeout, for any
  positive interval; a poll that sees it released at once is confirmed, for any timeout
  that is not negative.
\<close>

lemma wait_loop_never:
  assumes "0 < interval" and f: "\<forall>t. \<exists>t'. func t = (Inr False, t')"
  shows "\<exists>wt s'. wait_loop func timeout interval least wait_time s = Some (Inr wt, s') \<and>
           (timeout < wt \<or> (wt = wait_time \<and> \<not> (wait_time < least \<or> wait_time \<le> timeout)))"
proof (induction "nat (max least (timeout + 1) - wait_time)" arbitrary: wait_time s rule: less_induct)
  case less
  show ?case
  proof (cases "wait_time < least \<or> wait_time \<le> timeout")
    case False
    then show ?thesis by (subst wait_loop.simps) simp
  next
    case True
    from f obtain t' where ft: "func s = (Inr False, t')" by blast
    have "nat (max least (timeout + 1) - (wait_time + interval))
        < nat (max least (timeout + 1) - wait_time)"
      using assms(1) True by auto
    from less[OF this, of t'] obtain wt s' where
      r: "wait_loop func timeout interval least (wait_time + interval) t' = Some (Inr wt, s')"
         "timeout < wt \<or> (wt = wait_time + interval \<and>
            \<not> (wait_time + interval < least \<or> wait_time + interval \<le> timeout))"
      by blast
    from r(2) have "timeout < wt" by auto
    with r(1) True ft show ?thesis by (subst wait_loop.simps) simp
  qed
qed

lemma wait_until_never:
  assumes "0 < interval" and "\<forall>t. \<exists>t'. func t = (Inr False, t')"
  shows "\<exists>s'. wait_until func timeout interval least s = Some (Inr False, s')"
proof -
  from wait_loop_never[OF assms, where timeout = timeout and least = least and wait_time = 0
      and s = s] obtain wt s' where
    "wait_loop func timeout interval least 0 s = Some (Inr wt, s')" "timeout < wt"
    by auto
  then show ?thesis by (auto simp: wait_until_def)
qed

lemma wait_until_at_once:
  assumes "0 \<le> timeout" and "func s = (Inr True, s')"
  shows "wait_until func timeout interval least s = Some (Inr True, s')"
  using assms by (simp add: wait_until_def wait_loop_ok)

lemma remove_try_detach_raises:
  assumes "remove_router_from_l3_agent env (agent_id ag) (router_id r) (world s) = (Inl e, w')"
  shows "remove_try env self ag r s =
     Some (if e = NeutronClientException then ApiException else OtherException e,
           \<lparr>world = w', trace = trace s @ [RemoveRouter (agent_id ag) (router_id r)]\<rparr>)"
  using assms by (simp add: remove_try_def Let_def raised_def)

lemma remove_try_still_hosted:
  fixes env :: "'a env"
  assumes "remove_router_from_l3_agent env (agent_id ag) (router_id r) (world s) = (Inr (), w')"
    and "0 < wait_interval self"
    and l: "\<forall>w. \<exists>a as w''. list_l3_agent_hosting_routers env (router_id r) w = (Inr (a # as), w'')"
  shows "\<exists>s'. remove_try env self ag r s = Some (PollTimeout, s')"
proof -
  have "\<forall>t. \<exists>t'. check_api_removed env ag r t = (Inr False, t')"
  proof
    fix t :: "'a state"
    from l obtain a as w'' where
      "list_l3_agent_hosting_routers env (router_id r) (world t) = (Inr (a # as), w'')" by blast
    then show "\<exists>t'. check_api_removed env ag r t = (Inr False, t')"
      by (simp add: check_api_removed_def)
  qed
  from wait_until_never[where func = "check_api_removed env ag r", OF assms(2) this] obtain s' where
    "wait_until (check_api_removed env ag r) (wait_timeout self) (wait_interval self)
       (least_wait_time self)
       (s\<lparr>trace := trace s @ [RemoveRouter (agent_id ag) (router_id r)], world := w'\<rparr>)
     = Some (Inr False, s')" by blast
  with assms(1) show ?thesis by (simp add: remove_try_def Let_def)
qed

lemma remove_try_not_hosted:
  assumes "remove_router_from_l3_agent env (agent_id ag) (router_id r) (world s) = (Inr (), w')"
    and "0 \<le> wait_timeout self"
    and "list_l3_agent_hosting_routers env (router_id r) w' = (Inr [], w'')"
  shows "remove_try env self ag r s =
     Some (Confirmed, \<lparr>world = w'', trace = trace s @ [RemoveRouter (agent_id ag) (router_id r)]\<rparr>)"
proof -
  let ?s1 = "s\<lparr>trace := trace s @ [RemoveRouter (agent_id ag) (router_id r)], world := w'\<rparr>"
  have "check_api_removed env ag r ?s1
      = (Inr True, \<lparr>world = w'', trace = trace s @ [RemoveRouter (agent_id ag) (router_id r)]\<rparr>)"
    using assms(3) by (simp add: check_api_removed_def)
  from wait_until_at_once[where func = "check_api_removed env ag r", OF assms(2) this]
  show ?thesis using assms(1) by (simp add: remove_try_def Let_def)
qed

text \<open>
  An exception of the detach call that is not a \<^verbatim>\<open>NeutronClientException\<close> leaves
  \<^verbatim>\<open>need_retry\<close> false, and the \<^verbatim>\<open>return\<close> in the \<^verbatim>\<open>finally\<close> block discards it:
  \<^verbatim>\<open>_remove_router\<close> returns true.
\<close>

lemma remove_router_other_exception:
  assumes "remove_router_from_l3_agent env (agent_id ag) (router_id r) (world s) = (Inl e, w')"
    and "e \<noteq> NeutronClientException"
  shows "remove_router env self ag r n s =
     Some (True, \<lparr>world = w', trace = trace s @ [RemoveRouter (agent_id ag) (router_id r)]\<rparr>)"
  using assms by (subst remove_router_simps) (simp add: remove_try_def Let_def raised_def)

text \<open>
  The retry budget, for attempts that end in one of the three ways the \<^verbatim>\<open>try\<close> block
  provides for: an API exception, a poll timeout or a confirmed detach. Then
  \<^verbatim>\<open>_remove_router\<close> with budget \<open>n\<close> returns true exactly when one of the first \<open>n + 1\<close>
  attempts is confirmed. When the first two attempts fail and the third is confirmed,
  budget 2 gives true and \<^verbatim>\<open>migrate_router\<close> goes on to request the attachment to the
  destination; budget 1 gives false, \<^verbatim>\<open>migrate_router\<close> returns in the state the detach
  left, and no attachment has been requested.
\<close>

lemma remove_router_retryable:
  "(try_outcomes (remove_try env self ag r) (Suc (nat n)) s = Some outs \<and>
      (\<forall>out\<in>set outs. out = Confirmed \<or> out = ApiException \<or> out = PollTimeout) \<longrightarrow>
        (\<exists>s'. remove_router env self ag r n s = Some (Confirmed \<in> set outs, s'))) \<and>
   (try_outcomes (remove_try env self (self_src_agent self) r) 3 s = Some [o1, o2, Confirmed] \<and>
      (o1 = ApiException \<or> o1 = PollTimeout) \<and> (o2 = ApiException \<or> o2 = PollTimeout) \<longrightarrow>
        (\<exists>s1. remove_router env self (self_src_agent self) r 2 s = Some (True, s1)) \<and>
        (retry self = 2 \<and> 0 < wait_interval self \<longrightarrow>
           (\<exists>res s'. migrate_router env self target r None s = Some (res, s') \<and>
               AddRouter (agent_id target) (router_id r) \<in> set (new_events s s'))) \<and>
        (\<exists>s1. remove_router env self (self_src_agent self) r 1 s = Some (False, s1) \<and>
              (retry self = 1 \<longrightarrow> migrate_router env self target r None s = Some (Inr (), s1)) \<and>
              (\<forall>e\<in>set (new_events s s1). \<not> is_AddRouter e)))"
proof (intro conjI impI)
  assume a: "try_outcomes (remove_try env self ag r) (Suc (nat n)) s = Some outs \<and>
      (\<forall>out\<in>set outs. out = Confirmed \<or> out = ApiException \<or> out = PollTimeout)"
  then have "(\<exists>out\<in>set outs. \<not> need_retry out) = (Confirmed \<in> set outs)"
    by (auto simp: need_retry_iff)
  with remove_router_outcomes[of env self ag r n s outs] a
  show "\<exists>s'. remove_router env self ag r n s = Some (Confirmed \<in> set outs, s')" by simp
next
  let ?src = "self_src_agent self"
  assume a: "try_outcomes (remove_try env self ?src r) 3 s = Some [o1, o2, Confirmed] \<and>
      (o1 = ApiException \<or> o1 = PollTimeout) \<and> (o2 = ApiException \<or> o2 = PollTimeout)"
  then have t3: "try_outcomes (remove_try env self ?src r) (Suc (nat 2)) s = Some [o1, o2, Confirmed]"
    by (simp add: eval_nat_numeral)
  from remove_router_outcomes[OF t3] obtain s1 where
    r2: "remove_router env self ?src r 2 s = Some (True, s1)" by auto
  then show "\<exists>s1. remove_router env self ?src r 2 s = Some (True, s1)" by blast
  from a have t2: "try_outcomes (remove_try env self ?src r) (Suc (nat 1)) s = Some [o1, o2]"
    by (auto simp: eval_nat_numeral split: option.splits)
  from a have nr: "need_retry o1" "need_retry o2" by (auto simp: need_retry_iff)
  from remove_router_outcomes[OF t2] nr obtain s1' where
    r1: "remove_router env self ?src r 1 s = Some (False, s1')" by auto
  from remove_router_trace[OF r1] obtain k where
    "trace s1' = trace s @ replicate k (RemoveRouter (agent_id ?src) (router_id r))" by blast
  then have "new_events s s1' = replicate k (RemoveRouter (agent_id ?src) (router_id r))"
    by (rule new_events_append)
  then have na: "\<forall>e\<in>set (new_events s s1'). \<not> is_AddRouter e" by simp
  have "retry self = 1 \<longrightarrow> migrate_router env self target r None s = Some (Inr (), s1')"
  proof
    assume "retry self = 1"
    with r1 show "migrate_router env self target r None s = Some (Inr (), s1')"
      by (intro migrate_router_remove_failed) simp
  qed
  with r1 na show "\<exists>s1. remove_router env self ?src r 1 s = Some (False, s1) \<and>
              (retry self = 1 \<longrightarrow> migrate_router env self target r None s = Some (Inr (), s1)) \<and>
              (\<forall>e\<in>set (new_events s s1). \<not> is_AddRouter e)" by blast
  show "\<exists>res s'. migrate_router env self target r None s = Some (res, s') \<and>
               AddRouter (agent_id target) (router_id r) \<in> set (new_events s s')"
    if b: "retry self = 2 \<and> 0 < wait_interval self"
  proof -
    from b have pos: "0 < wait_interval self" by simp
    from r2 b have rm: "remove_router env self (case None of None \<Rightarrow> self_src_agent self | Some a \<Rightarrow> a) r
             (retry self) s = Some (True, s1)" by simp
    from add_router_terminates[OF pos, of env target r "retry self" s1] obtain added s2 where
      ad: "add_router env self target r (retry self) s1 = Some (added, s2)" by (metis prod.exhaust)
    from migrate_router_after_add[OF rm ad pos] obtain res s' where
      mr: "migrate_router env self target r None s = Some (res, s')" and
      ex: "extends (\<lambda>e. True) s2 s'" by blast
    from remove_router_trace[OF r2] obtain k where
      k: "trace s1 = trace s @ replicate k (RemoveRouter (agent_id ?src) (router_id r))" by blast
    from add_router_trace[OF ad] obtain k' where
      k': "1 \<le> k'" "trace s2 = trace s1 @ replicate k' (AddRouter (agent_id target) (router_id r))"
      by blast
    from ex obtain evs where evs: "trace s' = trace s2 @ evs" by (auto simp: extends_def)
    have "new_events s s' = replicate k (RemoveRouter (agent_id ?src) (router_id r)) @
        replicate k' (AddRouter (agent_id target) (router_id r)) @ evs"
      by (rule new_events_append) (simp add: k k' evs)
    with k'(1) have "AddRouter (agent_id target) (router_id r) \<in> set (new_events s s')"
      by auto
    with mr show ?thesis by blast
  qed
qed

lemma remove_router_retryable_example:
  "try_outcomes (remove_try flaky_env (ex_self 2) (self_src_agent (ex_self 2)) (ex_router ''r1'')) 3 n0
     = Some [ApiException, PollTimeout, Confirmed] \<and>
   list_all (\<lambda>out. out = Confirmed \<or> out = ApiException \<or> out = PollTimeout)
     [ApiException, PollTimeout, Confirmed] \<and>
   map_option fst (remove_router flaky_env (ex_self 2) (self_src_agent (ex_self 2)) (ex_router ''r1'') 2 n0)
     = Some True \<and>
   retry (ex_self 2) = 2 \<and> 0 < wait_interval (ex_self 2) \<and>
   (\<exists>res s'. migrate_router flaky_env (ex_self 2) (ex_agent ''a1'' 0) (ex_router ''r1'') None n0
                = Some (res, s') \<and>
              AddRouter ''a1'' ''r1'' \<in> set (new_events n0 s')) \<and>
   try_outcomes (remove_try flaky_env (ex_self 1) (self_src_agent (ex_self 1)) (ex_router ''r1'')) 3 n0
     = Some [ApiException, PollTimeout, Confirmed] \<and>
   retry (ex_self 1) = 1 \<and>
   (\<exists>s1. remove_router flaky_env (ex_self 1) (self_src_agent (ex_self 1)) (ex_router ''r1'') 1 n0
            = Some (False, s1) \<and>
          migrate_router flaky_env (ex_self 1) (ex_agent ''a1'' 0) (ex_router ''r1'') None n0
            = Some (Inr (), s1) \<and>
          filter is_AddRouter (new_events n0 s1) = [])"
proof -
  have o: "try_outcomes (remove_try flaky_env (ex_self k) (self_src_agent (ex_self k)) (ex_router ''r1'')) 3 n0
     = Some [ApiException, PollTimeout, Confirmed]" for k
    by (simp add: eval_nat_numeral flaky_remove_try n0_def)
  have f: "ApiException = ApiException \<or> ApiException = PollTimeout"
    "PollTimeout = ApiException \<or> PollTimeout = PollTimeout" by simp_all
  have g: "\<forall>out\<in>set [ApiException, PollTimeout, Confirmed].
      out = Confirmed \<or> out = ApiException \<or> out = PollTimeout" by simp
  have o': "try_outcomes (remove_try flaky_env (ex_self 2) (self_src_agent (ex_self 2)) (ex_router ''r1''))
      (Suc (nat 2)) n0 = Some [ApiException, PollTimeout, Confirmed]"
    using o[of 2] by (simp add: eval_nat_numeral)
  have r2: "retry (ex_self 2) = 2 \<and> 0 < wait_interval (ex_self 2)" by (simp add: ex_self_def)
  have r1: "retry (ex_self 1) = 1" by (simp add: ex_self_def)
  note A = remove_router_retryable[where env = flaky_env and self = "ex_self 2"
      and ag = "self_src_agent (ex_self 2)" and r = "ex_router ''r1''" and n = 2 and s = n0
      and outs = "[ApiException, PollTimeout, Confirmed]"
      and ?o1.0 = ApiException and ?o2.0 = PollTimeout and target = "ex_agent ''a1'' 0"]
  note B = remove_router_retryable[where env = flaky_env and self = "ex_self 1"
      and r = "ex_router ''r1''" and s = n0
      and ?o1.0 = ApiException and ?o2.0 = PollTimeout and target = "ex_agent ''a1'' 0"]
  from A o' g have a1: "map_option fst (remove_router flaky_env (ex_self 2)
      (self_src_agent (ex_self 2)) (ex_router ''r1'') 2 n0) = Some True"
    by auto
  from A o[of 2] f r2 have a2: "\<exists>res s'. migrate_router flaky_env (ex_self 2) (ex_agent ''a1'' 0)
        (ex_router ''r1'') None n0 = Some (res, s') \<and>
      AddRouter (agent_id (ex_agent ''a1'' 0)) (router_id (ex_router ''r1'')) \<in> set (new_events n0 s')"
    by blast
  from B o[of 1] f r1 have "\<exists>s1. remove_router flaky_env (ex_self 1) (self_src_agent (ex_self 1))
          (ex_router ''r1'') 1 n0 = Some (False, s1) \<and>
          migrate_router flaky_env (ex_self 1) (ex_agent ''a1'' 0) (ex_router ''r1'') None n0
            = Some (Inr (), s1) \<and>
          (\<forall>e\<in>set (new_events n0 s1). \<not> is_AddRouter e)"
    by blast
  then have b1: "\<exists>s1. remove_router flaky_env (ex_self 1) (self_src_agent (ex_self 1))
          (ex_router ''r1'') 1 n0 = Some (False, s1) \<and>
          migrate_router flaky_env (ex_self 1) (ex_agent ''a1'' 0) (ex_router ''r1'') None n0
            = Some (Inr (), s1) \<and>
          filter is_AddRouter (new_events n0 s1) = []"
    by (simp add: filter_empty_conv)
  have g': "list_all (\<lambda>out. out = Confirmed \<or> out = ApiException \<or> out = PollTimeout)
     [ApiException, PollTimeout, Confirmed]" by simp
  have ids: "agent_id (ex_agent ''a1'' 0) = ''a1''" "router_id (ex_router ''r1'') = ''r1''"
    by (simp_all add: ex_agent_def ex_router_def)
  show ?thesis
    using o[of 2] g' a1 r2 a2[unfolded ids] o[of 1] r1 b1 by (intro conjI) simp_all
qed

lemma aborting_add_try:
  "agent_id ag \<noteq> ''src'' \<Longrightarrow> add_try aborting_env (ex_self k) ag r s =
     Some (PollTimeout, \<lparr>world = (), trace = trace s @ [AddRouter (agent_id ag) (router_id r)]\<rparr>)"
  by (simp add: add_try_def Let_def aborting_env_def quiet_env_def ex_self_def raised_def
      wait_until_def wait_loop_eval check_api_added_def ex_agent_def)

text \<open>
  Claim C5. \<^verbatim>\<open>_remove_router\<close> can return true although none of its attempts succeeded.
  The detach call raises an exception that is not a \<^verbatim>\<open>NeutronClientException\<close> and the
  control plane still lists the source agent as the host of the router. With retry budget
  2, \<^verbatim>\<open>_remove_router\<close> makes that one attempt and returns true, and
  \<^verbatim>\<open>migrate_router\<close> goes on to request the attachment to the destination (three times,
  none of them confirmed, since the router has not left the source).
\<close>

theorem remove_router_masks_exception:
  "fst (remove_router_from_l3_agent aborting_env ''src'' ''r1'' ())
     = Inl (Exception ''Connection aborted'') \<and>
   fst (check_api_removed aborting_env (ex_agent ''src'' 1) (ex_router ''r1'') s0) = Inr False \<and>
   remove_router aborting_env (ex_self 2) (ex_agent ''src'' 1) (ex_router ''r1'') 2 s0
     = Some (True, \<lparr>world = (), trace = [RemoveRouter ''src'' ''r1'']\<rparr>) \<and>
   migrate_router aborting_env (ex_self 2) (ex_agent ''a1'' 0) (ex_router ''r1'') None s0
     = Some (Inr (), \<lparr>world = (), trace = [RemoveRouter ''src'' ''r1'', AddRouter ''a1'' ''r1'',
                       AddRouter ''a1'' ''r1'', AddRouter ''a1'' ''r1'']\<rparr>)"
proof -
  let ?src = "ex_agent ''src'' 1" and ?a1 = "ex_agent ''a1'' 0" and ?r = "ex_router ''r1''"
  have ids: "agent_id ?src = ''src''" "agent_id ?a1 = ''a1''" "router_id ?r = ''r1''"
    by (simp_all add: ex_agent_def ex_router_def)
  have c: "remove_router_from_l3_agent aborting_env ''src'' ''r1'' ()
      = (Inl (Exception ''Connection aborted''), ())"
    by (simp add: aborting_env_def quiet_env_def)
  have p: "fst (check_api_removed aborting_env ?src ?r s0) = Inr False"
    by (simp add: check_api_removed_def aborting_env_def quiet_env_def)
  have rm: "remove_router aborting_env (ex_self 2) ?src ?r 2 s0
      = Some (True, \<lparr>world = (), trace = [RemoveRouter ''src'' ''r1'']\<rparr>)"
    using remove_router_other_exception[of aborting_env ?src ?r s0 "Exception ''Connection aborted''"
        "()" "ex_self 2" 2] c
    by (simp add: ids s0_def)
  let ?s1 = "\<lparr>world = (), trace = [RemoveRouter ''src'' ''r1'']\<rparr>"
  let ?s2 = "\<lparr>world = (), trace = [RemoveRouter ''src'' ''r1'', AddRouter ''a1'' ''r1'',
                       AddRouter ''a1'' ''r1'', AddRouter ''a1'' ''r1'']\<rparr>"
  have ad: "add_router aborting_env (ex_self 2) ?a1 ?r 2 ?s1 = Some (False, ?s2)"
    by (simp add: add_router_simps aborting_add_try ids)
  have lp: "list_ports aborting_env (router_id ?r) True (world ?s2) = (Inr [], ())"
    by (simp add: aborting_env_def quiet_env_def)
  have sf: "self_src_agent (ex_self 2) = ?src" "retry (ex_self 2) = 2" by (simp_all add: ex_self_def)
  have rm': "remove_router aborting_env (ex_self 2)
      (case None of None \<Rightarrow> self_src_agent (ex_self 2) | Some a \<Rightarrow> a) ?r (retry (ex_self 2)) s0
      = Some (True, ?s1)"
    using rm by (simp add: sf)
  have ad': "add_router aborting_env (ex_self 2) ?a1 ?r (retry (ex_self 2)) ?s1 = Some (False, ?s2)"
    using ad by (simp add: sf)
  from migrate_router_no_ports_eq[OF rm' ad' lp]
  have "migrate_router aborting_env (ex_self 2) ?a1 ?r None s0 = Some (Inr (), ?s2)" by simp
  with c p rm show ?thesis by simp
qed

lemma quiet_remove_router:
  "remove_router (quiet_env as rs) (ex_self k) ag r n s =
     Some (True, \<lparr>world = (), trace = trace s @ [RemoveRouter (agent_id ag) (router_id r)]\<rparr>)"
  by (subst remove_router_simps) (simp add: quiet_remove_try)

lemma quiet_add_router_0:
  "add_router (quiet_env as rs) (ex_self k) ag r 0 s =
     Some (False, \<lparr>world = (), trace = trace s @ [AddRouter (agent_id ag) (router_id r)]\<rparr>)"
  by (subst add_router_simps) (simp add: quiet_add_try)

text \<open>
  \<^verbatim>\<open>_verify_router_on_host\<close> itself, for a router without enabled ports, lists no
  interface but still reads the forwarding flag on the host. The engine does not reach it
  for such a router.
\<close>

lemma verify_router_on_host_no_ports:
  assumes "list_ports env (router_id r) True (world s) = (Inr [], w')"
  shows "new_events s (snd (verify_router_on_host env ag r s))
     = [RunCmd (agent_host ag) (cmd_show_ipforward_in_netns (namespace_of r))]"
proof -
  have "verify_ports_on_host env ag r s = (Inr True, s\<lparr>world := w'\<rparr>)"
    using assms by (simp add: verify_ports_on_host_def)
  then have "snd (verify_router_on_host env ag r s) =
      snd (RemoteRunner_run env (agent_host ag) (cmd_show_ipforward_in_netns (namespace_of r))
             (s\<lparr>world := w'\<rparr>))"
    by (simp add: verify_router_on_host_def verify_ipforward_on_host_def split: prod.splits)
  then show ?thesis
    by (intro new_events_append) (simp add: RemoteRunner_run_trace)
qed

text \<open>
  Claim C4. When the listing of the router's enabled ports is empty,
  \<^verbatim>\<open>migrate_router\<close> ends right after the detach, the attach and that listing: it
  returns normally, starts no verification, reconciliation or cleanup, and has handed no
  command to the remote runner. If the control plane reports no enabled port whenever it
  is asked, every run of \<^verbatim>\<open>migrate_router\<close> that returns does so normally and without
  a remote command.
\<close>

theorem migrate_router_no_ports:
  "(remove_router env self (case src_arg of None \<Rightarrow> self_src_agent self | Some a \<Rightarrow> a) r
       (retry self) s = Some (True, s1) \<and>
    add_router env self target r (retry self) s1 = Some (added, s2) \<and>
    list_ports env (router_id r) True (world s2) = (Inr [], w') \<longrightarrow>
      migrate_router env self target r src_arg s = Some (Inr (), s2\<lparr>world := w'\<rparr>) \<and>
      (\<forall>e\<in>set (new_events s (s2\<lparr>world := w'\<rparr>)). \<not> is_RunCmd e)) \<and>
   ((\<forall>w. fst (list_ports env (router_id r) True w) = Inr []) \<and>
    migrate_router env self target r src_arg s = Some (res, s') \<longrightarrow>
      res = Inr () \<and> (\<forall>e\<in>set (new_events s s'). \<not> is_RunCmd e))"
proof (intro conjI impI)
  define src where "src = (case src_arg of None \<Rightarrow> self_src_agent self | Some a \<Rightarrow> a)"
  have rm: "\<forall>e\<in>set (new_events t t1). \<not> is_RunCmd e"
    if "remove_router env self src r (retry self) t = Some (b, t1)" for t t1 b
  proof -
    from remove_router_trace[OF that] obtain k where
      "trace t1 = trace t @ replicate k (RemoveRouter (agent_id src) (router_id r))" by blast
    then have "new_events t t1 = replicate k (RemoveRouter (agent_id src) (router_id r))"
      by (rule new_events_append)
    then show ?thesis by simp
  qed
  have both: "\<forall>e\<in>set (new_events t (t2\<lparr>world := w\<rparr>)). \<not> is_RunCmd e"
    if "remove_router env self src r (retry self) t = Some (b, t1)"
      and "add_router env self target r (retry self) t1 = Some (a, t2)" for t t1 t2 a b w
  proof -
    from remove_router_trace[OF that(1)] obtain k where
      k: "trace t1 = trace t @ replicate k (RemoveRouter (agent_id src) (router_id r))" by blast
    from add_router_trace[OF that(2)] obtain k' where
      k': "trace t2 = trace t1 @ replicate k' (AddRouter (agent_id target) (router_id r))" by blast
    have "new_events t (t2\<lparr>world := w\<rparr>) =
        replicate k (RemoveRouter (agent_id src) (router_id r)) @
        replicate k' (AddRouter (agent_id target) (router_id r))"
      by (rule new_events_append) (simp add: k k')
    then show ?thesis by auto
  qed
  {
    assume a: "remove_router env self (case src_arg of None \<Rightarrow> self_src_agent self | Some a \<Rightarrow> a) r
       (retry self) s = Some (True, s1) \<and>
      add_router env self target r (retry self) s1 = Some (added, s2) \<and>
      list_ports env (router_id r) True (world s2) = (Inr [], w')"
    then show "migrate_router env self target r src_arg s = Some (Inr (), s2\<lparr>world := w'\<rparr>)"
      by (intro migrate_router_no_ports_eq[of env self src_arg r s s1 target added]) simp_all
    from a show "\<forall>e\<in>set (new_events s (s2\<lparr>world := w'\<rparr>)). \<not> is_RunCmd e"
      by (intro both[of s True s1 added s2]) (simp_all add: src_def)
  }
  assume h: "(\<forall>w. fst (list_ports env (router_id r) True w) = Inr []) \<and>
    migrate_router env self target r src_arg s = Some (res, s')"
  then obtain b t1 where r1: "remove_router env self src r (retry self) s = Some (b, t1)"
    by (cases "remove_router env self src r (retry self) s")
       (auto simp: migrate_router_def Let_def src_def)
  have "res = Inr () \<and> (\<forall>e\<in>set (new_events s s'). \<not> is_RunCmd e)"
  proof (cases b)
    case False
    with r1 h have "res = Inr ()" "s' = t1"
      by (simp_all add: migrate_router_def Let_def src_def)
    with rm[OF r1] show ?thesis by simp
  next
    case True
    with r1 h obtain a t2 where r2: "add_router env self target r (retry self) t1 = Some (a, t2)"
      by (cases "add_router env self target r (retry self) t1")
         (auto simp: migrate_router_def Let_def src_def)
    obtain w where lp: "list_ports env (router_id r) True (world t2) = (Inr [], w)"
      using h by (metis prod.collapse)
    from r1 True r2 lp h have "res = Inr ()" "s' = t2\<lparr>world := w\<rparr>"
      by (simp_all add: migrate_router_def Let_def src_def)
    with both[OF r1 r2, of w] show ?thesis by simp
  qed
  then show "res = Inr ()" "\<forall>e\<in>set (new_events s s'). \<not> is_RunCmd e" by simp_all
qed

theorem migrate_router_no_ports_witness:
  "remove_router (quiet_env [] []) (ex_self 0)
       (case None of None \<Rightarrow> self_src_agent (ex_self 0) | Some a \<Rightarrow> a) (ex_router ''r1'')
       (retry (ex_self 0)) s0
     = Some (True, \<lparr>world = (), trace = [RemoveRouter ''src'' ''r1'']\<rparr>) \<and>
   add_router (quiet_env [] []) (ex_self 0) (ex_agent ''a1'' 0) (ex_router ''r1'') (retry (ex_self 0))
       \<lparr>world = (), trace = [RemoveRouter ''src'' ''r1'']\<rparr>
     = Some (False, \<lparr>world = (), trace = [RemoveRouter ''src'' ''r1'', AddRouter ''a1'' ''r1'']\<rparr>) \<and>
   list_ports (quiet_env [] []) (router_id (ex_router ''r1'')) True
       (world \<lparr>world = (), trace = [RemoveRouter ''src'' ''r1'', AddRouter ''a1'' ''r1'']\<rparr>)
     = (Inr [], ()) \<and>
   (\<forall>w. fst (list_ports (quiet_env [] []) (router_id (ex_router ''r1'')) True w) = Inr []) \<and>
   migrate_router (quiet_env [] []) (ex_self 0) (ex_agent ''a1'' 0) (ex_router ''r1'') None s0
     = Some (Inr (), \<lparr>world = (), trace = [RemoveRouter ''src'' ''r1'', AddRouter ''a1'' ''r1'']\<rparr>) \<and>
   filter is_RunCmd (new_events s0
        \<lparr>world = (), trace = [RemoveRouter ''src'' ''r1'', AddRouter ''a1'' ''r1'']\<rparr>) = []"
proof -
  define s1 :: "unit state" where "s1 = \<lparr>world = (), trace = [RemoveRouter ''src'' ''r1'']\<rparr>"
  define s2 :: "unit state" where
    "s2 = \<lparr>world = (), trace = [RemoveRouter ''src'' ''r1'', AddRouter ''a1'' ''r1'']\<rparr>"
  have h1: "remove_router (quiet_env [] []) (ex_self 0)
       (case None of None \<Rightarrow> self_src_agent (ex_self 0) | Some a \<Rightarrow> a) (ex_router ''r1'')
       (retry (ex_self 0)) s0 = Some (True, s1)"
  proof -
    have "self_src_agent (ex_self 0) = ex_agent ''src'' 1" by (simp add: ex_self_def)
    moreover have "agent_id (ex_agent ''src'' 1) = ''src''" "router_id (ex_router ''r1'') = ''r1''"
      by (simp_all add: ex_agent_def ex_router_def)
    ultimately show ?thesis by (simp add: quiet_remove_router s0_def s1_def)
  qed
  have h2: "add_router (quiet_env [] []) (ex_self 0) (ex_agent ''a1'' 0) (ex_router ''r1'')
       (retry (ex_self 0)) s1 = Some (False, s2)"
  proof -
    have "retry (ex_self 0) = 0" by (simp add: ex_self_def)
    moreover have "agent_id (ex_agent ''a1'' 0) = ''a1''" "router_id (ex_router ''r1'') = ''r1''"
      by (simp_all add: ex_agent_def ex_router_def)
    ultimately show ?thesis by (simp add: quiet_add_router_0 s1_def s2_def)
  qed
  have h3: "list_ports (quiet_env [] []) (router_id (ex_router ''r1'')) True (world s2) = (Inr [], ())"
    by (simp add: quiet_env_def)
  have h4: "\<forall>w. fst (list_ports (quiet_env [] []) (router_id (ex_router ''r1'')) True w) = Inr []"
    by (simp add: quiet_env_def)
  have w: "s2\<lparr>world := ()\<rparr> = s2" by simp
  note T = migrate_router_no_ports[where env = "quiet_env [] []" and self = "ex_self 0"
      and src_arg = None and r = "ex_router ''r1''" and s = s0 and ?s1.0 = s1 and ?s2.0 = s2
      and target = "ex_agent ''a1'' 0" and added = False and w' = "()", unfolded w]
  from T h1 h2 h3 have c: "migrate_router (quiet_env [] []) (ex_self 0) (ex_agent ''a1'' 0)
      (ex_router ''r1'') None s0 = Some (Inr (), s2)"
    and d: "\<forall>e\<in>set (new_events s0 s2). \<not> is_RunCmd e"
    by blast+
  from d have d': "filter is_RunCmd (new_events s0 s2) = []" by (simp add: filter_empty_conv)
  note facts = h1[unfolded s1_def] h2[unfolded s1_def s2_def] h3[unfolded s2_def] h4
    c[unfolded s2_def] d'[unfolded s2_def]
  show ?thesis by (intro conjI) (rule facts)+
qed

lemma quiet_retry_failed_router:
  "retry_failed_router (quiet_env as rs) (ex_self 0) r src 1 s =
     Some (Inr RetNone, \<lparr>world = (), trace = trace s @
       [AddRouter (agent_id src) (router_id r), AddRouter (agent_id src) (router_id r)]\<rparr>)"
proof -
  have l: "list_l3_agent_hosting_routers (quiet_env as rs) x w = (Inr [], ())" for x w
    by (simp add: quiet_env_def)
  have r0: "retry (ex_self 0) = 0" by (simp add: ex_self_def)
  have m1: "retry_failed_router (quiet_env as rs) (ex_self 0) r src (- 1) t = Some (Inr RetNone, t)"
    for t by (subst retry_failed_router_simps) simp
  have z: "retry_failed_router (quiet_env as rs) (ex_self 0) r src 0 t =
     Some (Inr RetNone, \<lparr>world = (), trace = trace t @ [AddRouter (agent_id src) (router_id r)]\<rparr>)"
    for t
    by (subst retry_failed_router_simps) (simp add: l r0 quiet_add_router_0 m1)
  show ?thesis
    by (subst retry_failed_router_simps) (simp add: l r0 quiet_add_router_0 z)
qed

text \<open>
  Claim C6. \<^verbatim>\<open>_retry_failed_router\<close> with an exhausted budget returns at once and does
  nothing. With budget left, when the control plane reports that no agent hosts the
  workload, it calls \<^verbatim>\<open>_add_router\<close> for the source agent and then itself with the
  budget less one; the first call it makes to a collaborator after the query is the
  attachment of the workload to the source. It returns whenever the poll interval is
  positive. Every attachment it requests is of this workload to the source agent, and it
  requests at most (budget + 1) * (retry + 1) of them.
\<close>

theorem retry_failed_router_unowned:
  "(n < 0 \<longrightarrow> retry_failed_router env self r src n s = Some (Inr RetNone, s)) \<and>
   (0 \<le> n \<and> list_l3_agent_hosting_routers env (router_id r) (world s) = (Inr [], w') \<longrightarrow>
      retry_failed_router env self r src n s =
        (case add_router env self src r (retry self) (s\<lparr>world := w'\<rparr>) of
           None \<Rightarrow> None
         | Some (added, s2) \<Rightarrow>
             (case retry_failed_router env self r src (n - 1) s2 of
                None \<Rightarrow> None
              | Some (Inl e, s3) \<Rightarrow> Some (Inl e, s3)
              | Some (Inr v, s3) \<Rightarrow> Some (Inr RetNone, s3)))) \<and>
   (0 \<le> n \<and> list_l3_agent_hosting_routers env (router_id r) (world s) = (Inr [], w') \<and>
    retry_failed_router env self r src n s = Some (res, s') \<longrightarrow>
      take 1 (new_events s s') = [AddRouter (agent_id src) (router_id r)]) \<and>
   (0 < wait_interval self \<longrightarrow> (\<exists>y. retry_failed_router env self r src n s = Some y)) \<and>
   (retry_failed_router env self r src n s = Some (res, s') \<longrightarrow>
      (\<exists>evs. trace s' = trace s @ evs \<and>
         (\<forall>a r'. AddRouter a r' \<in> set evs \<longrightarrow> a = agent_id src \<and> r' = router_id r) \<and>
         length (filter is_AddRouter evs) \<le> nat (n + 1) * (nat (retry self) + 1)))"
proof (intro conjI impI)
  assume "n < 0"
  then show "retry_failed_router env self r src n s = Some (Inr RetNone, s)"
    by (subst retry_failed_router_simps) simp
next
  assume "0 \<le> n \<and> list_l3_agent_hosting_routers env (router_id r) (world s) = (Inr [], w')"
  then show "retry_failed_router env self r src n s =
        (case add_router env self src r (retry self) (s\<lparr>world := w'\<rparr>) of
           None \<Rightarrow> None
         | Some (added, s2) \<Rightarrow>
             (case retry_failed_router env self r src (n - 1) s2 of
                None \<Rightarrow> None
              | Some (Inl e, s3) \<Rightarrow> Some (Inl e, s3)
              | Some (Inr v, s3) \<Rightarrow> Some (Inr RetNone, s3)))"
    by (intro retry_failed_router_unfold) simp_all
next
  assume "0 \<le> n \<and> list_l3_agent_hosting_routers env (router_id r) (world s) = (Inr [], w') \<and>
    retry_failed_router env self r src n s = Some (res, s')"
  then show "take 1 (new_events s s') = [AddRouter (agent_id src) (router_id r)]"
    by (intro retry_failed_router_first_event[of n env r s w' self src res]) simp_all
next
  assume "0 < wait_interval self"
  then show "\<exists>y. retry_failed_router env self r src n s = Some y"
    by (rule retry_failed_router_terminates)
next
  assume "retry_failed_router env self r src n s = Some (res, s')"
  from retry_failed_router_trace[OF this] obtain evs where
    evs: "trace s' = trace s @ evs"
      "list_all (\<lambda>e. is_RunCmd e \<or> e = AddRouter (agent_id src) (router_id r)) evs"
      "length (filter is_AddRouter evs) \<le> nat (n + 1) * (nat (retry self) + 1)"
    by blast
  have "\<forall>a r'. AddRouter a r' \<in> set evs \<longrightarrow> a = agent_id src \<and> r' = router_id r"
    using evs(2) by (auto simp: list_all_iff)
  with evs(1,3) show "\<exists>evs. trace s' = trace s @ evs \<and>
         (\<forall>a r'. AddRouter a r' \<in> set evs \<longrightarrow> a = agent_id src \<and> r' = router_id r) \<and>
         length (filter is_AddRouter evs) \<le> nat (n + 1) * (nat (retry self) + 1)"
    by blast
qed

theorem retry_failed_router_unowned_witness:
  "retry_failed_router (quiet_env [] []) (ex_self 0) (ex_router ''r1'') (ex_agent ''src'' 1) (- 1) s0
     = Some (Inr RetNone, s0) \<and>
   (0::int) \<le> 1 \<and>
   list_l3_agent_hosting_routers (quiet_env [] []) (router_id (ex_router ''r1'')) (world s0)
     = (Inr [], ()) \<and>
   0 < wait_interval (ex_self 0) \<and>
   retry_failed_router (quiet_env [] []) (ex_self 0) (ex_router ''r1'') (ex_agent ''src'' 1) 1 s0
     = Some (Inr RetNone, \<lparr>world = (), trace = [AddRouter ''src'' ''r1'', AddRouter ''src'' ''r1'']\<rparr>) \<and>
   take 1 (new_events s0 \<lparr>world = (), trace = [AddRouter ''src'' ''r1'', AddRouter ''src'' ''r1'']\<rparr>)
     = [AddRouter ''src'' ''r1''] \<and>
   length (filter is_AddRouter [AddRouter ''src'' ''r1'', AddRouter ''src'' ''r1''])
     \<le> nat (1 + 1) * (nat (retry (ex_self 0)) + 1)"
proof -
  define s2 :: "unit state" where
    "s2 = \<lparr>world = (), trace = [AddRouter ''src'' ''r1'', AddRouter ''src'' ''r1'']\<rparr>"
  have ids: "agent_id (ex_agent ''src'' 1) = ''src''" "router_id (ex_router ''r1'') = ''r1''"
    by (simp_all add: ex_agent_def ex_router_def)
  have h2: "list_l3_agent_hosting_routers (quiet_env [] []) (router_id (ex_router ''r1'')) (world s0)
     = (Inr [], ())" by (simp add: quiet_env_def)
  have h3: "0 < wait_interval (ex_self 0)" by (simp add: ex_self_def)
  have h4: "retry_failed_router (quiet_env [] []) (ex_self 0) (ex_router ''r1'') (ex_agent ''src'' 1) 1 s0
     = Some (Inr RetNone, s2)"
    by (simp add: quiet_retry_failed_router ids s0_def s2_def)
  note A = retry_failed_router_unowned[where n = "- 1" and env = "quiet_env [] []"
      and self = "ex_self 0" and r = "ex_router ''r1''" and src = "ex_agent ''src'' 1" and s = s0]
  note B = retry_failed_router_unowned[where n = 1 and env = "quiet_env [] []"
      and self = "ex_self 0" and r = "ex_router ''r1''" and src = "ex_agent ''src'' 1" and s = s0
      and w' = "()" and res = "Inr RetNone" and s' = s2, unfolded ids]
  from A have a: "retry_failed_router (quiet_env [] []) (ex_self 0) (ex_router ''r1'')
      (ex_agent ''src'' 1) (- 1) s0 = Some (Inr RetNone, s0)" by simp
  from B h2 h4 have b1: "take 1 (new_events s0 s2) = [AddRouter ''src'' ''r1'']"
    unfolding ids by simp
  from B h4 have b2: "\<exists>evs. trace s2 = trace s0 @ evs \<and>
      (\<forall>a r'. AddRouter a r' \<in> set evs \<longrightarrow> a = ''src'' \<and> r' = ''r1'') \<and>
      length (filter is_AddRouter evs) \<le> nat (1 + 1) * (nat (retry (ex_self 0)) + 1)"
    by blast
  have t2: "trace s2 = [AddRouter ''src'' ''r1'', AddRouter ''src'' ''r1'']" by (simp add: s2_def)
  from b2 obtain evs where "trace s2 = trace s0 @ evs"
    "length (filter is_AddRouter evs) \<le> nat (1 + 1) * (nat (retry (ex_self 0)) + 1)" by blast
  then have b3: "length (filter is_AddRouter [AddRouter ''src'' ''r1'', AddRouter ''src'' ''r1''])
     \<le> nat (1 + 1) * (nat (retry (ex_self 0)) + 1)"
    by (simp add: t2 s0_def)
  note facts = a h2 h3 h4[unfolded s2_def] b1[unfolded s2_def] b3
  show ?thesis by (intro conjI) (rule facts | simp)+
qed

end
